theory Spec2Isabelle
  imports Main "HOL-Library.Sublist"
begin

section \<open>Strings\<close>

text \<open>
  A JavaScript string is modelled by its UTF-8 bytes (\<^typ>\<open>string\<close>). Every character the
  source names in a regular expression is either ASCII (one byte, which never occurs inside
  the encoding of another character) or one of the non-ASCII white-space characters of
  \<^verbatim>\<open>\s\<close>, whose encodings are listed in \<open>white_space\<close>.
\<close>

text \<open>The character class of \<^verbatim>\<open>dirNameReg = /[\\\/:\*\?"<>\|\n\r]/g\<close> (index.ts, line 154).\<close>

definition dirNameReg :: "char \<Rightarrow> bool" where
  "dirNameReg c \<longleftrightarrow>
     c \<in> set [CHR 0x5C, CHR ''/'', CHR '':'', CHR ''*'', CHR ''?'', CHR 0x22,
              CHR ''<'', CHR ''>'', CHR ''|'', CHR 0x0A, CHR 0x0D]"

text \<open>
  The characters matched by \<^verbatim>\<open>\s\<close>: TAB, LF, VT, FF, CR, SP, U+00A0, U+1680,
  U+2000 .. U+200A, U+2028, U+2029, U+202F, U+205F, U+3000 and U+FEFF.
\<close>

definition white_space :: "string list" where
  "white_space =
     [[CHR 0x09], [CHR 0x0A], [CHR 0x0B], [CHR 0x0C], [CHR 0x0D], [CHR 0x20],
      [CHR 0xC2, CHR 0xA0], [CHR 0xE1, CHR 0x9A, CHR 0x80],
      [CHR 0xE2, CHR 0x80, CHR 0x80], [CHR 0xE2, CHR 0x80, CHR 0x81],
      [CHR 0xE2, CHR 0x80, CHR 0x82], [CHR 0xE2, CHR 0x80, CHR 0x83],
      [CHR 0xE2, CHR 0x80, CHR 0x84], [CHR 0xE2, CHR 0x80, CHR 0x85],
      [CHR 0xE2, CHR 0x80, CHR 0x86], [CHR 0xE2, CHR 0x80, CHR 0x87],
      [CHR 0xE2, CHR 0x80, CHR 0x88], [CHR 0xE2, CHR 0x80, CHR 0x89],
      [CHR 0xE2, CHR 0x80, CHR 0x8A], [CHR 0xE2, CHR 0x80, CHR 0xA8],
      [CHR 0xE2, CHR 0x80, CHR 0xA9], [CHR 0xE2, CHR 0x80, CHR 0xAF],
      [CHR 0xE2, CHR 0x81, CHR 0x9F], [CHR 0xE3, CHR 0x80, CHR 0x80],
      [CHR 0xEF, CHR 0xBB, CHR 0xBF]]"

text \<open>\<open>match_s s\<close>: the regular expression \<^verbatim>\<open>\s\<close> anchored at the head of \<open>s\<close>; the
  result is what follows the matched character.\<close>

definition match_s :: "string \<Rightarrow> string option" where
  "match_s s =
     map_option (\<lambda>w. drop (length w) s) (find (\<lambda>w. take (length w) s = w) white_space)"

text \<open>\<^verbatim>\<open>.replace(/\s/, '')\<close>: no \<^verbatim>\<open>g\<close> flag, so only the leftmost match is replaced.\<close>

fun replace_first_s :: "string \<Rightarrow> string" where
  "replace_first_s [] = []"
| "replace_first_s (c # cs) =
     (case match_s (c # cs) of Some rest \<Rightarrow> rest | None \<Rightarrow> c # replace_first_s cs)"

text \<open>\<^verbatim>\<open>title.replace(dirNameReg, '_').replace(/\s/, '')\<close> (lines 161 and 188).\<close>

definition sanitize :: "string \<Rightarrow> string" where
  "sanitize t = replace_first_s (map (\<lambda>c. if dirNameReg c then CHR ''_'' else c) t)"

text \<open>
  The reference transformation, following the specification's words: replace each of the
  eleven illegal characters by an underscore, then delete the white-space character at
  the least position where one starts, if there is such a position.
\<close>

definition illegal :: "char set" where
  "illegal = {CHR 0x5C, CHR ''/'', CHR '':'', CHR ''*'', CHR ''?'', CHR 0x22,
              CHR ''<'', CHR ''>'', CHR ''|'', CHR 0x0A, CHR 0x0D}"

definition ws_at :: "string \<Rightarrow> nat \<Rightarrow> string option" where
  "ws_at s i = find (\<lambda>w. take (length w) (drop i s) = w) white_space"

definition sanitize_ref :: "string \<Rightarrow> string" where
  "sanitize_ref t =
     (let r = map (\<lambda>c. if c \<in> illegal then CHR ''_'' else c) t
      in case find (\<lambda>i. ws_at r i \<noteq> None) [0..<length r] of
           None \<Rightarrow> r
         | Some i \<Rightarrow>
             (case ws_at r i of None \<Rightarrow> r | Some w \<Rightarrow> take i r @ drop (i + length w) r))"

text \<open>\<^verbatim>\<open>Array.prototype.join\<close>.\<close>

fun join :: "string \<Rightarrow> string list \<Rightarrow> string" where
  "join sep [] = []"
| "join sep [x] = x"
| "join sep (x # y # ys) = x @ sep @ join sep (y # ys)"

text \<open>
  \<^verbatim>\<open>toLocaleLowerCase\<close>, on the ASCII letters. The result is only compared with
  \<^verbatim>\<open>'title'\<close> (line 156); outside the Turkic and Lithuanian locales no non-ASCII
  character lower-cases to one of the letters of that word.
\<close>

definition toLocaleLowerCase :: "string \<Rightarrow> string" where
  "toLocaleLowerCase s =
     map (\<lambda>c. let n = (of_char c :: nat) in if 65 \<le> n \<and> n \<le> 90 then char_of (n + 32) else c) s"

text \<open>
  \<^verbatim>\<open>String(n)\<close> for an integer \<open>n\<close> below \<open>10\<^sup>2\<^sup>1\<close> in absolute value, where JavaScript
  prints every digit. The book ids of the model are such integers: from \<open>10\<^sup>2\<^sup>1\<close> on
  JavaScript prints an exponent, and a number with a fraction is not an \<open>int\<close>.
\<close>

fun digits :: "nat \<Rightarrow> string" where
  "digits n =
     (if n < 10 then [char_of (48 + n)] else digits (n div 10) @ [char_of (48 + n mod 10)])"

declare digits.simps [simp del]

definition String :: "int \<Rightarrow> string" where
  "String i = (if i < 0 then ''-'' @ digits (nat (- i)) else digits (nat i))"

section \<open>Data\<close>

text \<open>
  \<^verbatim>\<open>KnowledgeBase.Toc\<close>; its declaration is not part of index.ts, the fields are the ones
  index.ts reads. \<open>toc_type\<close> is \<open>None\<close> when \<^verbatim>\<open>typeof item.type !== 'string'\<close>.
\<close>

record Toc =
  toc_type :: "string option"
  title :: string
  uuid :: string
  url :: string
  parent_uuid :: string
  child_uuid :: string

text \<open>\<^verbatim>\<open>IProgressItem\<close>, as index.ts builds it at lines 169 and 191.\<close>

record IProgressItem =
  path :: string
  pathTitleList :: "string list"
  pathIdList :: "string list"
  toc :: Toc

type_synonym uuidMap = "string \<rightharpoonup> IProgressItem"

record IKnowledgeBaseInfo =
  bookId :: "int option"
  bookSlug :: "string option"
  tocList :: "Toc list option"
  bookName :: "string option"
  bookDesc :: "string option"

record IDownloadArticleParams =
  p_bookId :: int
  itemUrl :: string
  savePath :: string
  saveFilePath :: string
  p_uuid :: string
  articleTitle :: string
  articleUrl :: string

text \<open>\<open>Error m\<close> is \<^verbatim>\<open>new Error(m)\<close> thrown by index.ts; \<open>External m\<close> is a
  rejection of a library call (axios, JSON.parse, fs) that index.ts lets through,
  with its message.\<close>

datatype error = Error string | External string

text \<open>The promise of \<^verbatim>\<open>axios.get\<close>: rejected with a message, or resolved with
  \<^verbatim>\<open>{status, data}\<close>.\<close>

datatype 'a response = Rejected string | Response nat 'a

text \<open>\<^verbatim>\<open>jsonData.book\<close> of \<^verbatim>\<open>KnowledgeBase.Response\<close>.\<close>

record Book =
  b_id :: "int option"
  b_slug :: "string option"
  b_toc :: "Toc list option"
  b_name :: "string option"
  b_description :: "string option"

text \<open>The exception of \<^verbatim>\<open>mdImg.run\<close>: \<^verbatim>\<open>e.message\<close>, \<^verbatim>\<open>e.error?.message\<close> when
  \<^verbatim>\<open>e.error\<close> is truthy, and \<^verbatim>\<open>e.url\<close> (empty when absent).\<close>

record img_error =
  e_message :: string
  e_error :: "string option"
  e_url :: string

text \<open>What the run does to the outside, in order.\<close>

datatype event =
    PageGet string
  | Mkdir string
  | ApiGet string
  | ImgRun string string
  | WriteFile string string
  | Interrupt string
  | Append IProgressItem
  | GenFile string

text \<open>
  The fields of the class \<^verbatim>\<open>ProgressBar\<close> that index.ts reads. The class itself
  (./ProgressBar) is not among the sources.
\<close>

record ProgressBar =
  total :: nat
  curr :: nat
  progressInfo :: "IProgressItem list"
  isDownloadInterrupted :: bool

text \<open>
  The collaborators of index.ts, as functions of their arguments:
  \<^item> \<open>page_get\<close>, \<open>api_get\<close>: \<^verbatim>\<open>axios.get\<close> on the book page and on the article API
    (the data is \<^verbatim>\<open>apiRes.data.sourcecode\<close>, \<open>None\<close> when a link of that chain is missing);
  \<^item> \<open>parse d\<close>: \<^verbatim>\<open>JSON.parse(decodeURIComponent(d))\<close> followed by the read of \<^verbatim>\<open>.book\<close>:
    \<open>Inl\<close> the message when one of them throws, \<open>Inr None\<close> when \<^verbatim>\<open>book\<close> is falsy;
  \<^item> \<open>img_run md dist imgDir\<close>: \<^verbatim>\<open>mdImg.run\<close>;
  \<^item> \<open>write_file\<close>, \<open>mkdir\<close>: \<^verbatim>\<open>fs.writeFile\<close>, \<^verbatim>\<open>fs.mkdir\<close> (\<open>Some\<close> the message of a rejection);
  \<^item> \<open>progress bookPath total\<close>: the object \<^verbatim>\<open>new ProgressBar(bookPath, total)\<close> after
    \<^verbatim>\<open>init()\<close> has loaded the store of that directory;
  \<^item> \<open>url_prefix url slug\<close>: the value of
    \<^verbatim>\<open>url.replace(new RegExp(`(.*?/${bookSlug}).*`), '$1')\<close> (line 145), or \<open>Inl\<close> the
    message of the \<^verbatim>\<open>SyntaxError\<close> that \<^verbatim>\<open>new RegExp\<close> throws when the slug does not give
    a valid pattern (an unbalanced parenthesis, say).
\<close>

record env =
  page_get :: "string \<Rightarrow> string response"
  parse :: "string \<Rightarrow> string + Book option"
  api_get :: "string \<Rightarrow> string option response"
  img_run :: "string \<Rightarrow> string \<Rightarrow> string \<Rightarrow> img_error + string"
  write_file :: "string \<Rightarrow> string \<Rightarrow> string option"
  mkdir :: "string \<Rightarrow> string option"
  progress :: "string \<Rightarrow> nat \<Rightarrow> ProgressBar"
  url_prefix :: "string \<Rightarrow> string option \<Rightarrow> string + string"

section \<open>getKnowledgeBaseInfo\<close>

text \<open>
  \<^verbatim>\<open>knowledgeBaseReg = /decodeURIComponent\(\"(.+)\"\)\);/m\<close>. The dot matches every
  character but the line terminators LF, CR, U+2028 and U+2029; \<open>dot_run s\<close> is the longest
  prefix of \<open>s\<close> that the dot can cross.
\<close>

definition line_terminator :: "string list" where
  "line_terminator =
     [[CHR 0x0A], [CHR 0x0D], [CHR 0xE2, CHR 0x80, CHR 0xA8], [CHR 0xE2, CHR 0x80, CHR 0xA9]]"

fun dot_run :: "string \<Rightarrow> string" where
  "dot_run [] = []"
| "dot_run (c # cs) =
     (if list_ex (\<lambda>w. take (length w) (c # cs) = w) line_terminator then []
      else c # dot_run cs)"

definition reg_open :: string where
  "reg_open = ''decodeURIComponent('' @ [CHR 0x22]"

definition reg_close :: string where
  "reg_close = [CHR 0x22] @ ''));''"

text \<open>
  A match that starts at the head of \<open>s\<close>: the opening text, then the greedy group
  \<^verbatim>\<open>(.+)\<close>, which gives back characters from the longest run of at least one until the
  closing text follows. The result is the group.
\<close>

definition capture_at :: "string \<Rightarrow> string option" where
  "capture_at s =
     (if take (length reg_open) s = reg_open then
        let rest = drop (length reg_open) s;
            n = length (dot_run rest)
        in map_option (\<lambda>k. take k rest)
             (find (\<lambda>k. take (length reg_close) (drop k rest) = reg_close) (rev [1..<Suc n]))
      else None)"

text \<open>\<^verbatim>\<open>html.match(knowledgeBaseReg)\<close>: the leftmost start that matches; the result is
  \<^verbatim>\<open>data[1]\<close>, and \<open>None\<close> when there is no match.\<close>

fun knowledgeBaseReg :: "string \<Rightarrow> string option" where
  "knowledgeBaseReg [] = None"
| "knowledgeBaseReg (c # cs) =
     (case capture_at (c # cs) of Some g \<Rightarrow> Some g | None \<Rightarrow> knowledgeBaseReg cs)"

text \<open>The object \<^verbatim>\<open>{}\<close>.\<close>

definition empty_info :: IKnowledgeBaseInfo where
  "empty_info =
     \<lparr>bookId = None, bookSlug = None, tocList = None, bookName = None, bookDesc = None\<rparr>"

definition getKnowledgeBaseInfo :: "env \<Rightarrow> string \<Rightarrow> error + IKnowledgeBaseInfo" where
  "getKnowledgeBaseInfo e u =
     (case page_get e u of
        Rejected m \<Rightarrow> Inl (External m)
      | Response status data \<Rightarrow>
          let html = (if status = 200 then data else [])
          in (case knowledgeBaseReg html of
                None \<Rightarrow> Inr empty_info
              | Some d \<Rightarrow>
                  if d = [] then Inr empty_info
                  else (case parse e d of
                          Inl m \<Rightarrow> Inl (External m)
                        | Inr None \<Rightarrow> Inr empty_info
                        | Inr (Some b) \<Rightarrow>
                            Inr \<lparr>bookId = b_id b,
                                 bookSlug = b_slug b,
                                 tocList = Some (case b_toc b of None \<Rightarrow> [] | Some t \<Rightarrow> t),
                                 bookName = Some (case b_name b of None \<Rightarrow> [] | Some n \<Rightarrow> n),
                                 bookDesc =
                                   Some (case b_description b of None \<Rightarrow> [] | Some n \<Rightarrow> n)\<rparr>)))"

section \<open>downloadArticle\<close>

definition apiUrl :: "IDownloadArticleParams \<Rightarrow> string" where
  "apiUrl p =
     ''https://www.yuque.com/api/docs/'' @ itemUrl p @ ''?'' @
     ''book_id='' @ String (p_bookId p) @ ''&merge_dynamic_data=false&mode=markdown''"

text \<open>Lines 71 to 84. An error thrown in the \<^verbatim>\<open>then\<close> callback is caught by the
  \<^verbatim>\<open>catch\<close> that follows and wrapped once more.\<close>

definition article_response :: "env \<Rightarrow> string \<Rightarrow> error + string" where
  "article_response e a =
     (let wrap = (\<lambda>m. Inl (Error (''download article Error: '' @ a @ '' '' @ m)))
      in case api_get e a of
           Rejected m \<Rightarrow> wrap m
         | Response status data \<Rightarrow>
             if status = 200 then
               (case data of
                  None \<Rightarrow> wrap (''download article Error: '' @ a)
                | Some sourcecode \<Rightarrow>
                    if sourcecode = [] then wrap (''download article Error: '' @ a)
                    else Inr sourcecode)
             else wrap (''download article Error: '' @ a @ '' http status '' @ digits status))"

text \<open>\<^verbatim>\<open>/<br(\s?)\/>/\<close> anchored at the head of \<open>s\<close>; the result is what follows the match.\<close>

definition match_br :: "string \<Rightarrow> string option" where
  "match_br s =
     (if take 3 s = ''<br'' then
        let r = drop 3 s;
            plain = (if take 2 r = ''/>'' then Some (drop 2 r) else None)
        in (case match_s r of
              Some r' \<Rightarrow> if take 2 r' = ''/>'' then Some (drop 2 r') else plain
            | None \<Rightarrow> plain)
      else None)"

text \<open>\<^verbatim>\<open>mdData.replace(/<br(\s?)\/>/gm, '\n')\<close> (line 101).\<close>

function br_replace :: "string \<Rightarrow> string" where
  "br_replace [] = []"
| "br_replace (c # cs) =
     (case match_br (c # cs) of
        Some rest \<Rightarrow> CHR 0x0A # br_replace rest
      | None \<Rightarrow> c # br_replace cs)"
  by pat_completeness auto
termination
  by (relation "measure length")
     (auto simp: match_br_def match_s_def Let_def split: if_splits option.splits)

text \<open>Lines 101 to 107.\<close>

definition page_text :: "IDownloadArticleParams \<Rightarrow> string \<Rightarrow> string" where
  "page_text p md =
     (let md1 = br_replace md;
          md2 = (if articleTitle p \<noteq> [] then
                   ''# '' @ articleTitle p @ [CHR 0x0A] @ ''<!--page header-->'' @
                   [CHR 0x0A, CHR 0x0A] @ md1 @ [CHR 0x0A, CHR 0x0A]
                 else md1)
      in if articleUrl p \<noteq> [] then
           md2 @ ''<!--page footer-->'' @ [CHR 0x0A] @ ''- '' @
           [CHR 0xE5, CHR 0x8E, CHR 0x9F, CHR 0xE6, CHR 0x96, CHR 0x87] @
           '': <'' @ articleUrl p @ ''>''
         else md2)"

text \<open>Lines 93 to 98.\<close>

definition image_error :: "img_error \<Rightarrow> error" where
  "image_error x =
     (case e_error x of
        Some em \<Rightarrow>
          if e_url x \<noteq> [] then
            Error (''download article image Error '' @ e_url x @ '': '' @ em)
          else Error (''download article image Error: '' @ e_message x)
      | None \<Rightarrow> Error (''download article image Error: '' @ e_message x))"

text \<open>The result of the promise and what was done to the outside.\<close>

definition downloadArticle :: "env \<Rightarrow> IDownloadArticleParams \<Rightarrow> (error + bool) \<times> event list" where
  "downloadArticle e p =
     (let a = apiUrl p;
          imgDir = ''img/'' @ p_uuid p
      in case article_response e a of
           Inl err \<Rightarrow> (Inl err, [ApiGet a])
         | Inr sourcecode \<Rightarrow>
             (case img_run e sourcecode (savePath p) imgDir of
                Inl x \<Rightarrow> (Inl (image_error x), [ApiGet a, ImgRun (savePath p) imgDir])
              | Inr md \<Rightarrow>
                  let mdData = page_text p md;
                      tr = [ApiGet a, ImgRun (savePath p) imgDir, WriteFile (saveFilePath p) mdData]
                  in (case write_file e (saveFilePath p) mdData of
                        None \<Rightarrow> (Inr True, tr)
                      | Some m \<Rightarrow>
                          (Inl (Error (''download article Error '' @ articleUrl p @ '': '' @ m)),
                           tr))))"

section \<open>ProgressBar\<close>

text \<open>
  Modelled from the spec: \<^verbatim>\<open>new ProgressBar(bookPath, total)\<close> followed by \<^verbatim>\<open>init()\<close>,
  which are missing from the sources, on a store that holds \<open>records\<close>; \<open>curr\<close> is the completed count,
  the number of stored records with success (a failed node is never appended, so every
  stored record is one); the run is interrupted iff \<open>0 < len(records) < total\<close>.
\<close>

definition init :: "nat \<Rightarrow> IProgressItem list \<Rightarrow> ProgressBar" where
  "init n records =
     \<lparr>total = n, curr = length records, progressInfo = records,
      isDownloadInterrupted = (0 < length records \<and> length records < n)\<rparr>"

text \<open>
  Modelled from the spec: \<^verbatim>\<open>ProgressBar.updateProgress(progressItem, isSuccess)\<close>, which is
  missing from the sources. On success the entry is appended durably and counted; on
  failure nothing is appended and the node is left unrecorded.
\<close>

definition updateProgress :: "ProgressBar \<Rightarrow> IProgressItem \<Rightarrow> bool \<Rightarrow> ProgressBar \<times> event list" where
  "updateProgress pb progressItem isSuccess =
     (if isSuccess then
        (pb\<lparr>curr := curr pb + 1, progressInfo := progressInfo pb @ [progressItem]\<rparr>,
         [Append progressItem])
      else (pb, []))"

section \<open>main\<close>

text \<open>The variables of the loop of \<^verbatim>\<open>main\<close>, and what was done to the outside so far.\<close>

record run_state =
  uuidMap :: uuidMap
  errArticleCount :: nat
  totalArticleCount :: nat
  errArticleInfo :: "IProgressItem list"
  progressBar :: ProgressBar
  trace :: "event list"

text \<open>
  The \<^verbatim>\<open>while (tempItem)\<close> loop of lines 160 to 168; \<^verbatim>\<open>unshift\<close> puts the new element in
  front; \<open>titles\<close> and \<open>ids\<close> are \<^verbatim>\<open>pathTitleList\<close> and \<^verbatim>\<open>pathIdList\<close>. Nothing bounds the number of rounds: the loop does not end when the parent
  links of the entries in the map form a cycle, and then the value is \<open>None\<close>.
\<close>

partial_function (option) walk ::
  "uuidMap \<Rightarrow> Toc \<Rightarrow> string list \<Rightarrow> string list \<Rightarrow> (string list \<times> string list) option" where
  "walk m tempItem titles ids =
     (case m (parent_uuid tempItem) of
        Some p \<Rightarrow> walk m (toc p) (sanitize (title tempItem) # titles) (uuid tempItem # ids)
      | None \<Rightarrow> Some (sanitize (title tempItem) # titles, uuid tempItem # ids))"

declare walk.simps [code]

text \<open>Lines 134 to 143.\<close>

definition seed :: "ProgressBar \<Rightarrow> uuidMap" where
  "seed pb =
     (if isDownloadInterrupted pb then
        fold (\<lambda>item m. m(uuid (toc item) \<mapsto> item)) (progressInfo pb) Map.empty
      else Map.empty)"

text \<open>The test of line 156.\<close>

definition is_dir :: "string \<Rightarrow> Toc \<Rightarrow> bool" where
  "is_dir ty item \<longleftrightarrow> toLocaleLowerCase ty = ''title'' \<or> child_uuid item \<noteq> []"

text \<open>The object of lines 169 to 174.\<close>

definition dir_item :: "string list \<Rightarrow> string list \<Rightarrow> Toc \<Rightarrow> IProgressItem" where
  "dir_item titles ids item =
     \<lparr>path = join ''/'' titles, pathTitleList = titles, pathIdList = ids, toc = item\<rparr>"

text \<open>Lines 157 to 177. A rejection of \<^verbatim>\<open>fs.mkdir\<close> is not caught.\<close>

definition process_dir ::
  "env \<Rightarrow> string \<Rightarrow> run_state \<Rightarrow> Toc \<Rightarrow> (error \<times> event list + run_state) option" where
  "process_dir e bookPath st item =
     (case walk (uuidMap st) item [] [] of
        None \<Rightarrow> None
      | Some (titles, ids) \<Rightarrow>
          let progressItem = dir_item titles ids item;
              dir = bookPath @ ''/'' @ join ''/'' titles
          in (case mkdir e dir of
                Some m \<Rightarrow> Some (Inl (External m, trace st @ [Mkdir dir]))
              | None \<Rightarrow>
                  let (pb, evs) = updateProgress (progressBar st) progressItem True
                  in Some (Inr (st\<lparr>uuidMap := (uuidMap st)(uuid item \<mapsto> progressItem),
                                    progressBar := pb,
                                    trace := trace st @ [Mkdir dir] @ evs\<rparr>))))"

text \<open>Lines 180 to 196: the entry of a document.\<close>

definition preItem :: "uuidMap \<Rightarrow> Toc \<Rightarrow> string \<times> string list \<times> string list" where
  "preItem m item =
     (case m (parent_uuid item) of
        Some p \<Rightarrow> (path p, pathTitleList p, pathIdList p)
      | None \<Rightarrow> ([], [], []))"

definition leaf_item :: "uuidMap \<Rightarrow> Toc \<Rightarrow> IProgressItem" where
  "leaf_item m item =
     (let (ppath, ptitles, pids) = preItem m item;
          fileName = sanitize (title item);
          titles = ptitles @ [fileName @ ''.md''];
          ids = pids @ [uuid item]
      in \<lparr>path = join ''/'' titles, pathTitleList = titles, pathIdList = ids, toc = item\<rparr>)"

text \<open>The argument of \<^verbatim>\<open>downloadArticle\<close>, lines 199 to 207.\<close>

definition article_params ::
  "int \<Rightarrow> string \<Rightarrow> string \<Rightarrow> uuidMap \<Rightarrow> Toc \<Rightarrow> IDownloadArticleParams" where
  "article_params bid bookPath articleUrlPrefix m item =
     \<lparr>p_bookId = bid,
      itemUrl = url item,
      savePath = bookPath @ ''/'' @ fst (preItem m item),
      saveFilePath = bookPath @ ''/'' @ path (leaf_item m item),
      p_uuid = uuid item,
      articleTitle = title item,
      articleUrl = articleUrlPrefix @ ''/'' @ url item\<rparr>"

text \<open>Lines 179 to 215.\<close>

definition process_leaf ::
  "env \<Rightarrow> int \<Rightarrow> string \<Rightarrow> string \<Rightarrow> run_state \<Rightarrow> Toc \<Rightarrow> run_state" where
  "process_leaf e bid bookPath articleUrlPrefix st item =
     (let progressItem = leaf_item (uuidMap st) item;
          (res, evs) =
            downloadArticle e (article_params bid bookPath articleUrlPrefix (uuidMap st) item);
          isSuccess = (case res of Inr _ \<Rightarrow> True | Inl _ \<Rightarrow> False);
          failed =
            (case res of
               Inr _ \<Rightarrow> []
             | Inl (Error m) \<Rightarrow> [Interrupt ([CHR 0xE2, CHR 0x9C, CHR 0x95] @ '' '' @ m)]
             | Inl (External m) \<Rightarrow> [Interrupt ([CHR 0xE2, CHR 0x9C, CHR 0x95] @ '' '' @ m)]);
          (pb, pevs) = updateProgress (progressBar st) progressItem isSuccess
      in st\<lparr>totalArticleCount := totalArticleCount st + 1,
            errArticleCount := (if isSuccess then errArticleCount st else errArticleCount st + 1),
            errArticleInfo :=
              (if isSuccess then errArticleInfo st else errArticleInfo st @ [progressItem]),
            uuidMap := (uuidMap st)(uuid item \<mapsto> progressItem),
            progressBar := pb,
            trace := trace st @ evs @ failed @ pevs\<rparr>)"

text \<open>The body of the \<^verbatim>\<open>for\<close> loop, lines 150 to 216.\<close>

definition process_item ::
  "env \<Rightarrow> int \<Rightarrow> string \<Rightarrow> string \<Rightarrow> run_state \<Rightarrow> Toc \<Rightarrow>
     (error \<times> event list + run_state) option" where
  "process_item e bid bookPath articleUrlPrefix st item =
     (case toc_type item of
        None \<Rightarrow> Some (Inr st)
      | Some ty \<Rightarrow>
          if uuidMap st (uuid item) \<noteq> None then Some (Inr st)
          else if is_dir ty item then process_dir e bookPath st item
          else if url item \<noteq> [] then
            Some (Inr (process_leaf e bid bookPath articleUrlPrefix st item))
          else Some (Inr st))"

text \<open>The \<^verbatim>\<open>for\<close> loop of line 149.\<close>

fun process_list ::
  "env \<Rightarrow> int \<Rightarrow> string \<Rightarrow> string \<Rightarrow> run_state \<Rightarrow> Toc list \<Rightarrow>
     (error \<times> event list + run_state) option" where
  "process_list e bid bookPath articleUrlPrefix st [] = Some (Inr st)"
| "process_list e bid bookPath articleUrlPrefix st (item # items) =
     (case process_item e bid bookPath articleUrlPrefix st item of
        None \<Rightarrow> None
      | Some (Inl err) \<Rightarrow> Some (Inl err)
      | Some (Inr st') \<Rightarrow> process_list e bid bookPath articleUrlPrefix st' items)"

text \<open>How \<^verbatim>\<open>main\<close> ends when it does not throw: at line 131, or after the loop and the summary.\<close>

datatype outcome = AlreadyComplete | Finished run_state

text \<open>Lines 134 to 217: the map is seeded and the loop runs.\<close>

definition sync ::
  "env \<Rightarrow> int \<Rightarrow> string \<Rightarrow> string \<Rightarrow> ProgressBar \<Rightarrow> event list \<Rightarrow> Toc list \<Rightarrow>
     (error \<times> event list + run_state) option" where
  "sync e bid bookPath articleUrlPrefix pb tr tocs =
     process_list e bid bookPath articleUrlPrefix
       \<lparr>uuidMap = seed pb, errArticleCount = 0, totalArticleCount = 0, errArticleInfo = [],
        progressBar = pb, trace = tr\<rparr> tocs"

text \<open>
  \<^verbatim>\<open>main(url, options)\<close>, with \<open>distDir\<close> for \<^verbatim>\<open>options.distDir\<close>. The value is \<open>None\<close> when
  the run does not end; otherwise the error thrown or the way the run ended, and what
  was done to the outside. The log lines are left out. The pattern of line 145 is built
  after the test of line 129 and before the loop, outside every \<^verbatim>\<open>try\<close>. The classes
  \<^verbatim>\<open>ProgressBar\<close> and \<^verbatim>\<open>Summary\<close> are not among the sources; their calls are taken to
  resolve, as the specification has them.
\<close>

definition main :: "env \<Rightarrow> string \<Rightarrow> string \<Rightarrow> ((error + outcome) \<times> event list) option" where
  "main e u distDir =
     (case getKnowledgeBaseInfo e u of
        Inl err \<Rightarrow> Some (Inl err, [PageGet u])
      | Inr info \<Rightarrow>
          (case bookId info of
             None \<Rightarrow> Some (Inl (Error ''No found book id''), [PageGet u])
           | Some bid \<Rightarrow>
               if bid = 0 then Some (Inl (Error ''No found book id''), [PageGet u])
               else
                 (case tocList info of
                    None \<Rightarrow> Some (Inl (Error ''No found toc list''), [PageGet u])
                  | Some tocs \<Rightarrow>
                      if length tocs = 0 then Some (Inl (Error ''No found toc list''), [PageGet u])
                      else
                        let bookPath = distDir @ ''/'' @ String bid
                        in (case mkdir e bookPath of
                              Some m \<Rightarrow> Some (Inl (External m), [PageGet u, Mkdir bookPath])
                            | None \<Rightarrow>
                                let pb = progress e bookPath (length tocs)
                                in if curr pb = length tocs then
                                     Some (Inr AlreadyComplete, [PageGet u, Mkdir bookPath])
                                   else
                                     (case url_prefix e u (bookSlug info) of
                                        Inl m \<Rightarrow>
                                          Some (Inl (External m), [PageGet u, Mkdir bookPath])
                                      | Inr articleUrlPrefix \<Rightarrow>
                                          (case sync e bid bookPath articleUrlPrefix pb
                                                  [PageGet u, Mkdir bookPath] tocs of
                                             None \<Rightarrow> None
                                           | Some (Inl (err, tr)) \<Rightarrow> Some (Inl err, tr)
                                           | Some (Inr st) \<Rightarrow>
                                               Some (Inr (Finished st),
                                                     trace st @ [GenFile bookPath])))))))"

section \<open>The ancestor chain\<close>

text \<open>
  The specification's ancestor chain of a node in a resolution map \<open>m\<close>, root first and ending
  with the node itself: the parent of a node is the source node of the entry that \<open>m\<close> holds
  under the node's \<open>parent_uuid\<close>, and the chain ends where \<open>m\<close> holds no such entry.
\<close>

inductive ancestors :: "uuidMap \<Rightarrow> Toc \<Rightarrow> Toc list \<Rightarrow> bool" where
  root: "m (parent_uuid n) = None \<Longrightarrow> ancestors m n [n]"
| step: "m (parent_uuid n) = Some p \<Longrightarrow> ancestors m (toc p) ch \<Longrightarrow> ancestors m n (ch @ [n])"

code_pred ancestors .

section \<open>The ordering of the nodes\<close>

text \<open>
  The specification's invariant of a node sequence: the parent of a node, if it is in the
  sequence at all, is at an earlier index than the node. So the parent id of a node is
  not the id of the node itself or of a later node.
\<close>

fun ordered :: "Toc list \<Rightarrow> bool" where
  "ordered [] \<longleftrightarrow> True"
| "ordered (n # ns) \<longleftrightarrow> parent_uuid n \<notin> set (map uuid (n # ns)) \<and> ordered ns"

section \<open>A book of two nodes\<close>

text \<open>The scenario of the specification: a directory \<open>Intro\<close> and a document \<open>Hello\<close> in it.\<close>

definition ex_A :: Toc where
  "ex_A = \<lparr>toc_type = Some ''TITLE'', title = ''Intro'', uuid = ''A'', url = [],
           parent_uuid = [], child_uuid = ''B''\<rparr>"

definition ex_B :: Toc where
  "ex_B = \<lparr>toc_type = Some ''DOC'', title = ''Hello'', uuid = ''B'', url = ''x1'',
           parent_uuid = ''A'', child_uuid = []\<rparr>"

definition ex_page :: string where
  "ex_page = ''<script>decodeURIComponent('' @ [CHR 0x22] @ ''%7B%7D'' @ [CHR 0x22] @ ''));</script>''"

definition ex_book :: Book where
  "ex_book = \<lparr>b_id = Some 7, b_slug = Some ''kb'', b_toc = Some [ex_A, ex_B],
              b_name = Some ''Book'', b_description = None\<rparr>"

text \<open>An outside where every call succeeds and the progress store is empty.\<close>

definition ex_env :: env where
  "ex_env =
     \<lparr>page_get = (\<lambda>u. Response 200 ex_page),
      parse = (\<lambda>d. Inr (Some ex_book)),
      api_get = (\<lambda>a. Response 200 (Some ''text'')),
      img_run = (\<lambda>md dist imgDir. Inr md),
      write_file = (\<lambda>f d. None),
      mkdir = (\<lambda>d. None),
      progress = (\<lambda>d n. init n []),
      url_prefix = (\<lambda>u slug. Inr u)\<rparr>"

text \<open>The state of the loop before the first node, on an empty store.\<close>

definition ex_st :: run_state where
  "ex_st =
     \<lparr>uuidMap = Map.empty, errArticleCount = 0, totalArticleCount = 0, errArticleInfo = [],
      progressBar = init 2 [], trace = []\<rparr>"

text \<open>A node with a document reference whose \<^verbatim>\<open>type\<close> is not a string.\<close>

definition ex_N :: Toc where
  "ex_N = \<lparr>toc_type = None, title = ''Hello'', uuid = ''N'', url = ''x1'',
           parent_uuid = [], child_uuid = []\<rparr>"

text \<open>The state of the loop after the directory \<open>Intro\<close>.\<close>

definition ex_st1 :: run_state where
  "ex_st1 =
     \<lparr>uuidMap = [''A'' \<mapsto> dir_item [''Intro''] [''A''] ex_A],
      errArticleCount = 0, totalArticleCount = 0, errArticleInfo = [],
      progressBar = fst (updateProgress (init 2 []) (dir_item [''Intro''] [''A''] ex_A) True),
      trace = [Mkdir ''out/7/Intro'', Append (dir_item [''Intro''] [''A''] ex_A)]\<rparr>"

text \<open>The store already holds the records of both nodes.\<close>

definition ex_env_done :: env where
  "ex_env_done =
     ex_env\<lparr>progress :=
       (\<lambda>d n. init n [dir_item [''Intro''] [''A''] ex_A,
                        leaf_item [''A'' \<mapsto> dir_item [''Intro''] [''A''] ex_A] ex_B])\<rparr>"

text \<open>No directory can be created.\<close>

definition ex_env_mkdir :: env where
  "ex_env_mkdir = ex_env\<lparr>mkdir := (\<lambda>d. Some ''EACCES'')\<rparr>"

text \<open>The slug of the book is an open parenthesis, which gives no valid pattern.\<close>

definition ex_env_slug :: env where
  "ex_env_slug =
     ex_env\<lparr>parse := (\<lambda>d. Inr (Some (ex_book\<lparr>b_slug := Some ''(''\<rparr>))),
            url_prefix :=
              (\<lambda>u slug. if slug = Some ''('' then Inl ''Invalid regular expression'' else Inr u)\<rparr>"

text \<open>The book directory can be created, the directory of the node \<open>Intro\<close> cannot.\<close>

definition ex_env_subdir :: env where
  "ex_env_subdir = ex_env\<lparr>mkdir := (\<lambda>d. if d = ''out/7/Intro'' then Some ''EACCES'' else None)\<rparr>"

text \<open>The book page is answered with the status 201 and the same text.\<close>

definition ex_env_201 :: env where
  "ex_env_201 = ex_env\<lparr>page_get := (\<lambda>u. Response 201 ex_page)\<rparr>"

text \<open>The book has no table of contents.\<close>

definition ex_env_notoc :: env where
  "ex_env_notoc = ex_env\<lparr>parse := (\<lambda>d. Inr (Some (ex_book\<lparr>b_toc := None\<rparr>)))\<rparr>"

text \<open>The payload of the book page cannot be parsed.\<close>

definition ex_env_parse :: env where
  "ex_env_parse = ex_env\<lparr>parse := (\<lambda>d. Inl ''Unexpected token'')\<rparr>"

text \<open>The article API rejects every request.\<close>

definition ex_env_fail :: env where
  "ex_env_fail = ex_env\<lparr>api_get := (\<lambda>a. Rejected ''timeout'')\<rparr>"





text \<open>The image rewriting throws an error that carries no URL.\<close>

definition ex_env_img :: env where
  "ex_env_img =
     ex_env\<lparr>img_run := (\<lambda>md dist imgDir. Inl \<lparr>e_message = ''boom'', e_error = None, e_url = []\<rparr>)\<rparr>"

text \<open>The call of \<^verbatim>\<open>downloadArticle\<close> for the document \<open>Hello\<close>.\<close>

definition ex_params :: IDownloadArticleParams where
  "ex_params =
     \<lparr>p_bookId = 7, itemUrl = ''x1'', savePath = ''out/7/Intro'',
      saveFilePath = ''out/7/Intro/Hello.md'', p_uuid = ''B'', articleTitle = ''Hello'',
      articleUrl = ''http://y/kb/x1''\<rparr>"

section \<open>Notions for the loop\<close>

text \<open>The call of \<^verbatim>\<open>downloadArticle\<close> for a leaf resolves (the \<^verbatim>\<open>catch\<close> of line 208 is not
  entered).\<close>

definition fetched :: "env \<Rightarrow> int \<Rightarrow> string \<Rightarrow> string \<Rightarrow> uuidMap \<Rightarrow> Toc \<Rightarrow> bool" where
  "fetched e bid bookPath pre m item \<longleftrightarrow>
     (case fst (downloadArticle e (article_params bid bookPath pre m item)) of
        Inr _ \<Rightarrow> True | Inl _ \<Rightarrow> False)"

text \<open>The node ids of a list of entries.\<close>

definition ids :: "IProgressItem list \<Rightarrow> string set" where
  "ids rs = (\<lambda>r. uuid (toc r)) ` set rs"



text \<open>Every record of the store is the entry that the resolution map holds for its node.\<close>

definition rec_self :: "run_state \<Rightarrow> bool" where
  "rec_self st \<longleftrightarrow> (\<forall>r \<in> set (progressInfo (progressBar st)). uuidMap st (uuid (toc r)) = Some r)"

text \<open>Every entry of the map is stored under the id of its node, a node of the list.\<close>

definition from_nodes :: "Toc list \<Rightarrow> uuidMap \<Rightarrow> bool" where
  "from_nodes ns m \<longleftrightarrow> (\<forall>u en. m u = Some en \<longrightarrow> toc en \<in> set ns \<and> uuid (toc en) = u)"


text \<open>The records of the store after a pass, and the path a pass has resolved for an id.\<close>

definition records_of :: "(error \<times> event list + run_state) option \<Rightarrow> IProgressItem list" where
  "records_of r = (case r of Some (Inr st) \<Rightarrow> progressInfo (progressBar st) | _ \<Rightarrow> [])"

definition resolved_path :: "(error \<times> event list + run_state) option \<Rightarrow> string \<Rightarrow> string option" where
  "resolved_path r u = (case r of Some (Inr st) \<Rightarrow> map_option path (uuidMap st u) | _ \<Rightarrow> None)"





section \<open>The sanitizer\<close>

lemma dirNameReg_illegal: "dirNameReg c \<longleftrightarrow> c \<in> illegal"
  by (simp add: dirNameReg_def illegal_def)

lemma match_s_ws_at: "match_s s = map_option (\<lambda>w. drop (length w) s) (ws_at s 0)"
  by (simp add: match_s_def ws_at_def)

lemma ws_at_Cons: "ws_at (c # cs) (Suc i) = ws_at cs i"
  by (simp add: ws_at_def)

lemma find_map_list: "find P (map f xs) = map_option f (find (\<lambda>x. P (f x)) xs)"
  by (induction xs) auto

lemma find_upt_Suc:
  "find P [0..<Suc n] = (if P 0 then Some 0 else map_option Suc (find (\<lambda>i. P (Suc i)) [0..<n]))"
proof -
  have "[0..<Suc n] = 0 # map Suc [0..<n]"
    by (simp add: upt_conv_Cons map_Suc_upt del: upt_Suc)
  then show ?thesis
    by (simp add: find_map_list del: upt_Suc)
qed

lemma replace_first_s_ref:
  "replace_first_s r =
     (case find (\<lambda>i. ws_at r i \<noteq> None) [0..<length r] of
        None \<Rightarrow> r
      | Some i \<Rightarrow> (case ws_at r i of None \<Rightarrow> r | Some w \<Rightarrow> take i r @ drop (i + length w) r))"
proof (induction r)
  case Nil
  show ?case by simp
next
  case (Cons c cs)
  show ?case
  proof (cases "ws_at (c # cs) 0")
    case None
    then show ?thesis
      using Cons.IH
      by (simp add: match_s_ws_at find_upt_Suc ws_at_Cons del: upt_Suc split: option.splits)
  next
    case (Some w)
    then show ?thesis
      by (simp add: match_s_ws_at find_upt_Suc del: upt_Suc)
  qed
qed

lemma set_match_s: "match_s s = Some rest \<Longrightarrow> set rest \<subseteq> set s"
  by (auto simp: match_s_def dest: in_set_dropD)

lemma set_replace_first_s: "set (replace_first_s r) \<subseteq> set r"
proof (induction r)
  case Nil
  show ?case by simp
next
  case (Cons c cs)
  show ?case
  proof (cases "match_s (c # cs)")
    case None
    with Cons.IH show ?thesis by auto
  next
    case (Some rest)
    then have "set rest \<subseteq> set (c # cs)"
      by (rule set_match_s)
    with Some show ?thesis by simp
  qed
qed

text \<open>
  Claim C6: for every title, \<open>sanitize\<close> equals the reference transformation (each of the
  eleven illegal characters replaced by an underscore, then at most the first white-space
  character removed), and none of the eleven characters occurs in its result. Being a
  total function of the title, it is deterministic and never fails.
\<close>

theorem sanitize_reference:
  "sanitize t = sanitize_ref t \<and> set (sanitize t) \<inter> illegal = {}"
proof
  show "sanitize t = sanitize_ref t"
    unfolding sanitize_def sanitize_ref_def Let_def dirNameReg_illegal
    by (rule replace_first_s_ref)
  have "set (sanitize t) \<subseteq> set (map (\<lambda>c. if c \<in> illegal then CHR ''_'' else c) t)"
    unfolding sanitize_def dirNameReg_illegal by (rule set_replace_first_s)
  moreover have "CHR ''_'' \<notin> illegal"
    by (simp add: illegal_def)
  ultimately show "set (sanitize t) \<inter> illegal = {}"
    by auto
qed

section \<open>Directories\<close>

lemma walk_ancestors:
  "ancestors m n ch \<Longrightarrow>
     walk m n ts is = Some (map (\<lambda>x. sanitize (title x)) ch @ ts, map uuid ch @ is)"
proof (induction arbitrary: ts "is" rule: ancestors.induct)
  case (root m n)
  then show ?case by (subst walk.simps) simp
next
  case (step m n p ch)
  show ?case
    by (subst walk.simps) (simp add: step.hyps(1) step.IH)
qed

lemma ancestors_walk:
  assumes "walk m n ts is = Some r"
  shows "\<exists>ch. ancestors m n ch \<and>
          r = (map (\<lambda>x. sanitize (title x)) ch @ ts, map uuid ch @ is)"
proof (rule walk.raw_induct
    [where P = "\<lambda>m n ts is r. \<exists>ch. ancestors m n ch \<and>
          r = (map (\<lambda>x. sanitize (title x)) ch @ ts, map uuid ch @ is)", OF _ assms])
  fix w :: "uuidMap \<Rightarrow> Toc \<Rightarrow> string list \<Rightarrow> string list \<Rightarrow> (string list \<times> string list) option"
    and m :: uuidMap and n :: Toc and ts "is" :: "string list" and r :: "string list \<times> string list"
  assume IH: "\<And>m n ts is r. w m n ts is = Some r \<Longrightarrow>
      \<exists>ch. ancestors m n ch \<and> r = (map (\<lambda>x. sanitize (title x)) ch @ ts, map uuid ch @ is)"
    and eq: "(case m (parent_uuid n) of
        None \<Rightarrow> Some (sanitize (title n) # ts, uuid n # is)
      | Some p \<Rightarrow> w m (toc p) (sanitize (title n) # ts) (uuid n # is)) = Some r"
  show "\<exists>ch. ancestors m n ch \<and>
          r = (map (\<lambda>x. sanitize (title x)) ch @ ts, map uuid ch @ is)"
  proof (cases "m (parent_uuid n)")
    case None
    with eq have "r = (sanitize (title n) # ts, uuid n # is)" by simp
    moreover from None have "ancestors m n [n]" by (rule ancestors.root)
    ultimately show ?thesis by force
  next
    case (Some p)
    with eq have "w m (toc p) (sanitize (title n) # ts) (uuid n # is) = Some r" by simp
    then have "\<exists>ch. ancestors m (toc p) ch \<and>
          r = (map (\<lambda>x. sanitize (title x)) ch @ sanitize (title n) # ts, map uuid ch @ uuid n # is)"
      by (rule IH)
    then obtain ch where
      ch: "ancestors m (toc p) ch"
        "r = (map (\<lambda>x. sanitize (title x)) ch @ sanitize (title n) # ts, map uuid ch @ uuid n # is)"
      by blast
    from Some ch(1) have "ancestors m n (ch @ [n])" by (rule ancestors.step)
    with ch(2) show ?thesis by force
  qed
qed

lemma ancestors_last: "ancestors m n ch \<Longrightarrow> ch \<noteq> [] \<and> last ch = n"
  by (induction rule: ancestors.induct) auto

lemma ancestors_unique: "ancestors m n ch \<Longrightarrow> ancestors m n ch' \<Longrightarrow> ch = ch'"
proof (induction arbitrary: ch' rule: ancestors.induct)
  case (root m n)
  from root(2) root(1) show ?case by cases auto
next
  case (step m n p ch)
  from step(4) step(1) obtain c where "ch' = c @ [n]" "ancestors m (toc p) c"
    by cases auto
  with step.IH show ?case by simp
qed

text \<open>The loop does not end at a node whose parent entry in the map is the node itself.\<close>

lemma walk_cycle:
  assumes "m (parent_uuid n) = Some en" and "toc en = n"
  shows "walk m n ts is = None"
proof (rule ccontr)
  assume "walk m n ts is \<noteq> None"
  then obtain r where r: "walk m n ts is = Some r" by auto
  have "m' = m \<and> n' = n \<longrightarrow> False" if "walk m' n' ts' is' = Some r'" for m' n' ts' is' r'
    using that
  proof (rule walk.raw_induct
      [where P = "\<lambda>m' n' ts' is' r'. m' = m \<and> n' = n \<longrightarrow> False", rotated 1])
    fix w :: "uuidMap \<Rightarrow> Toc \<Rightarrow> string list \<Rightarrow> string list \<Rightarrow> (string list \<times> string list) option"
      and m' :: uuidMap and n' :: Toc and ts' is' :: "string list"
      and r' :: "string list \<times> string list"
    assume IH: "\<And>m' n' ts' is' r'. w m' n' ts' is' = Some r' \<Longrightarrow> m' = m \<and> n' = n \<longrightarrow> False"
      and eq: "(case m' (parent_uuid n') of
          None \<Rightarrow> Some (sanitize (title n') # ts', uuid n' # is')
        | Some p \<Rightarrow> w m' (toc p) (sanitize (title n') # ts') (uuid n' # is')) = Some r'"
    show "m' = m \<and> n' = n \<longrightarrow> False"
    proof
      assume a: "m' = m \<and> n' = n"
      with eq assms have "w m n (sanitize (title n) # ts') (uuid n # is') = Some r'"
        by simp
      from IH [OF this] show False by simp
    qed
  qed
  from this [OF r] show False by simp
qed

lemmas sanitize_eval = sanitize_def dirNameReg_def match_s_def white_space_def

lemma sanitize_Intro: "sanitize ''Intro'' = ''Intro''"
  by (simp add: sanitize_eval)

lemma sanitize_Hello: "sanitize ''Hello'' = ''Hello''"
  by (simp add: sanitize_eval)

lemma process_dir_ancestors:
  assumes "ancestors (uuidMap st) item ch"
    and "mkdir e (bookPath @ ''/'' @ join ''/'' (map (\<lambda>x. sanitize (title x)) ch)) = None"
  shows "\<exists>st'. process_dir e bookPath st item = Some (Inr st') \<and>
           uuidMap st' = (uuidMap st)(uuid item \<mapsto>
              dir_item (map (\<lambda>x. sanitize (title x)) ch) (map uuid ch) item)"
  using walk_ancestors [OF assms(1), of "[]" "[]"] assms(2)
  by (simp add: process_dir_def updateProgress_def Let_def)

lemma process_dir_result:
  assumes "process_dir e bookPath st item = Some (Inr st')"
  shows "\<exists>ch. ancestors (uuidMap st) item ch \<and>
           uuidMap st' = (uuidMap st)(uuid item \<mapsto>
              dir_item (map (\<lambda>x. sanitize (title x)) ch) (map uuid ch) item)"
proof (cases "walk (uuidMap st) item [] []")
  case None
  with assms show ?thesis by (simp add: process_dir_def)
next
  case (Some r)
  from ancestors_walk [OF Some] obtain ch where
    ch: "ancestors (uuidMap st) item ch"
      "r = (map (\<lambda>x. sanitize (title x)) ch, map uuid ch)"
    by auto
  from assms Some ch(2) have
    "uuidMap st' = (uuidMap st)(uuid item \<mapsto>
        dir_item (map (\<lambda>x. sanitize (title x)) ch) (map uuid ch) item)"
    by (auto simp: process_dir_def updateProgress_def Let_def split: option.splits)
  with ch(1) show ?thesis by blast
qed

text \<open>
  Claim C3: for a directory-like node that is not skipped, the entry stored under its id has
  as title segments the sanitized titles along its ancestor chain in the resolution map,
  root first and ending with the node itself, as id segments the ids along that chain, and
  as path their join with a slash. The loop returns whenever the chain exists and the
  directory can be created. In the book of two nodes, on empty progress, the directory
  \<open>A\<close> resolves to the path \<open>Intro\<close>.
\<close>

theorem directory_path:
  assumes "toc_type item = Some ty" and "is_dir ty item" and "uuidMap st (uuid item) = None"
  shows "(\<forall>ch. ancestors (uuidMap st) item ch \<longrightarrow>
            mkdir e (bookPath @ ''/'' @ join ''/'' (map (\<lambda>x. sanitize (title x)) ch)) = None \<longrightarrow>
            (\<exists>st'. process_item e bid bookPath pre st item = Some (Inr st') \<and>
                   uuidMap st' (uuid item) =
                     Some \<lparr>path = join ''/'' (map (\<lambda>x. sanitize (title x)) ch),
                           pathTitleList = map (\<lambda>x. sanitize (title x)) ch,
                           pathIdList = map uuid ch, toc = item\<rparr>)) \<and>
         (\<forall>st'. process_item e bid bookPath pre st item = Some (Inr st') \<longrightarrow>
            (\<exists>ch. ancestors (uuidMap st) item ch \<and> last ch = item \<and>
                  uuidMap st' (uuid item) =
                     Some \<lparr>path = join ''/'' (map (\<lambda>x. sanitize (title x)) ch),
                           pathTitleList = map (\<lambda>x. sanitize (title x)) ch,
                           pathIdList = map uuid ch, toc = item\<rparr>))"
proof -
  have eq: "process_item e bid bookPath pre st item = process_dir e bookPath st item"
    using assms by (simp add: process_item_def)
  show ?thesis
  proof (intro conjI allI impI)
    fix ch
    assume "ancestors (uuidMap st) item ch"
      and "mkdir e (bookPath @ ''/'' @ join ''/'' (map (\<lambda>x. sanitize (title x)) ch)) = None"
    from process_dir_ancestors [OF this]
    show "\<exists>st'. process_item e bid bookPath pre st item = Some (Inr st') \<and>
                   uuidMap st' (uuid item) =
                     Some \<lparr>path = join ''/'' (map (\<lambda>x. sanitize (title x)) ch),
                           pathTitleList = map (\<lambda>x. sanitize (title x)) ch,
                           pathIdList = map uuid ch, toc = item\<rparr>"
      unfolding eq by (auto simp: dir_item_def)
  next
    fix st'
    assume "process_item e bid bookPath pre st item = Some (Inr st')"
    then have "process_dir e bookPath st item = Some (Inr st')"
      by (simp add: eq)
    from process_dir_result [OF this] obtain ch where
      ch: "ancestors (uuidMap st) item ch"
        "uuidMap st' = (uuidMap st)(uuid item \<mapsto>
              dir_item (map (\<lambda>x. sanitize (title x)) ch) (map uuid ch) item)"
      by blast
    from ch(1) have "last ch = item" by (simp add: ancestors_last)
    with ch show "\<exists>ch. ancestors (uuidMap st) item ch \<and> last ch = item \<and>
                  uuidMap st' (uuid item) =
                     Some \<lparr>path = join ''/'' (map (\<lambda>x. sanitize (title x)) ch),
                           pathTitleList = map (\<lambda>x. sanitize (title x)) ch,
                           pathIdList = map uuid ch, toc = item\<rparr>"
      by (auto simp: dir_item_def)
  qed
qed

theorem directory_path_witness:
  "toc_type ex_A = Some ''TITLE'' \<and> is_dir ''TITLE'' ex_A \<and> uuidMap ex_st (uuid ex_A) = None \<and>
   ancestors (uuidMap ex_st) ex_A [ex_A] \<and>
   (\<exists>st'. process_item ex_env 7 ''out/7'' ''http://y/kb'' ex_st ex_A = Some (Inr st') \<and>
      uuidMap st' ''A'' =
        Some \<lparr>path = ''Intro'', pathTitleList = [''Intro''], pathIdList = [''A''], toc = ex_A\<rparr>)"
proof -
  have a: "toc_type ex_A = Some ''TITLE''" by (simp add: ex_A_def)
  have b: "is_dir ''TITLE'' ex_A" by (simp add: is_dir_def ex_A_def)
  have c: "uuidMap ex_st (uuid ex_A) = None" by (simp add: ex_st_def)
  have d: "ancestors (uuidMap ex_st) ex_A [ex_A]"
    by (rule ancestors.root) (simp add: ex_st_def)
  have m: "mkdir ex_env (''out/7'' @ ''/'' @ join ''/'' (map (\<lambda>x. sanitize (title x)) [ex_A])) = None"
    by (simp add: ex_env_def)
  from directory_path [OF a b c, of ex_env "''out/7''" 7 "''http://y/kb''"] d m
  have "\<exists>st'. process_item ex_env 7 ''out/7'' ''http://y/kb'' ex_st ex_A = Some (Inr st') \<and>
      uuidMap st' (uuid ex_A) =
        Some \<lparr>path = join ''/'' (map (\<lambda>x. sanitize (title x)) [ex_A]),
              pathTitleList = map (\<lambda>x. sanitize (title x)) [ex_A],
              pathIdList = map uuid [ex_A], toc = ex_A\<rparr>"
    by blast
  then have "\<exists>st'. process_item ex_env 7 ''out/7'' ''http://y/kb'' ex_st ex_A = Some (Inr st') \<and>
      uuidMap st' ''A'' =
        Some \<lparr>path = ''Intro'', pathTitleList = [''Intro''], pathIdList = [''A''], toc = ex_A\<rparr>"
    by (simp add: ex_A_def sanitize_Intro)
  with a b c d show ?thesis by blast
qed

section \<open>Leaves and classification\<close>

lemma join_snoc: "join sep (xs @ [x]) = (if xs = [] then x else join sep xs @ sep @ x)"
  by (induction sep xs rule: join.induct) auto

lemma uuidMap_process_leaf:
  "uuidMap (process_leaf e bid bookPath pre st item) =
     (uuidMap st)(uuid item \<mapsto> leaf_item (uuidMap st) item)"
  by (simp add: process_leaf_def Let_def split: prod.splits)

text \<open>
  Claim C4: for a leaf node that is not skipped, the entry stored under its id has the title
  segments and id segments of the entry of its parent, extended with the leaf's sanitized
  title plus \<open>.md\<close> and with the leaf's id, and as path the join of its title segments
  (the parent's path, a slash and the file name, when the parent's path is the join of
  the parent's segments). When the map holds no entry for the parent, the empty default is
  used and the leaf is a root-level document: its only segment is its own.
\<close>

theorem leaf_entry:
  assumes "toc_type item = Some ty" and "\<not> is_dir ty item" and "url item \<noteq> []"
    and "uuidMap st (uuid item) = None"
  shows "\<exists>st' entry.
           process_item e bid bookPath pre st item = Some (Inr st') \<and>
           uuidMap st' (uuid item) = Some entry \<and> toc entry = item \<and>
           pathTitleList entry =
             (case uuidMap st (parent_uuid item) of None \<Rightarrow> [] | Some p \<Rightarrow> pathTitleList p) @
             [sanitize (title item) @ ''.md''] \<and>
           pathIdList entry =
             (case uuidMap st (parent_uuid item) of None \<Rightarrow> [] | Some p \<Rightarrow> pathIdList p) @
             [uuid item] \<and>
           path entry = join ''/'' (pathTitleList entry) \<and>
           (uuidMap st (parent_uuid item) = None \<longrightarrow>
              path entry = sanitize (title item) @ ''.md'' \<and>
              pathTitleList entry = [sanitize (title item) @ ''.md''] \<and>
              pathIdList entry = [uuid item]) \<and>
           (\<forall>p. uuidMap st (parent_uuid item) = Some p \<and> pathTitleList p \<noteq> [] \<and>
                path p = join ''/'' (pathTitleList p) \<longrightarrow>
              path entry = path p @ ''/'' @ sanitize (title item) @ ''.md'')"
proof -
  let ?entry = "leaf_item (uuidMap st) item"
  let ?st' = "process_leaf e bid bookPath pre st item"
  have 1: "process_item e bid bookPath pre st item = Some (Inr ?st')"
    using assms by (simp add: process_item_def)
  have 2: "uuidMap ?st' (uuid item) = Some ?entry"
    by (simp add: uuidMap_process_leaf)
  have 3: "toc ?entry = item"
    by (simp add: leaf_item_def Let_def split: prod.splits)
  have 4: "pathTitleList ?entry =
             (case uuidMap st (parent_uuid item) of None \<Rightarrow> [] | Some p \<Rightarrow> pathTitleList p) @
             [sanitize (title item) @ ''.md'']"
    by (simp add: leaf_item_def preItem_def Let_def split: prod.splits option.splits)
  have 5: "pathIdList ?entry =
             (case uuidMap st (parent_uuid item) of None \<Rightarrow> [] | Some p \<Rightarrow> pathIdList p) @
             [uuid item]"
    by (simp add: leaf_item_def preItem_def Let_def split: prod.splits option.splits)
  have 6: "path ?entry = join ''/'' (pathTitleList ?entry)"
    by (simp add: leaf_item_def Let_def split: prod.splits)
  have 7: "uuidMap st (parent_uuid item) = None \<longrightarrow>
              path ?entry = sanitize (title item) @ ''.md'' \<and>
              pathTitleList ?entry = [sanitize (title item) @ ''.md''] \<and>
              pathIdList ?entry = [uuid item]"
    using 4 5 6 by simp
  have 8: "\<forall>p. uuidMap st (parent_uuid item) = Some p \<and> pathTitleList p \<noteq> [] \<and>
                path p = join ''/'' (pathTitleList p) \<longrightarrow>
              path ?entry = path p @ ''/'' @ sanitize (title item) @ ''.md''"
    using 4 6 by (auto simp: join_snoc)
  show ?thesis
    by (rule exI [of _ ?st'], rule exI [of _ ?entry]) (use 1 2 3 4 5 6 7 8 in blast)
qed

theorem leaf_entry_witness:
  "toc_type ex_B = Some ''DOC'' \<and> \<not> is_dir ''DOC'' ex_B \<and> url ex_B \<noteq> [] \<and>
   uuidMap ex_st1 (uuid ex_B) = None \<and>
   (\<exists>st' entry.
      process_item ex_env 7 ''out/7'' ''http://y/kb'' ex_st1 ex_B = Some (Inr st') \<and>
      uuidMap st' ''B'' = Some entry \<and>
      pathTitleList entry = [''Intro'', ''Hello.md''] \<and> pathIdList entry = [''A'', ''B''] \<and>
      path entry = ''Intro/Hello.md'')"
proof -
  have a: "toc_type ex_B = Some ''DOC''" by (simp add: ex_B_def)
  have b: "\<not> is_dir ''DOC'' ex_B" by (simp add: is_dir_def ex_B_def toLocaleLowerCase_def)
  have c: "url ex_B \<noteq> []" by (simp add: ex_B_def)
  have d: "uuidMap ex_st1 (uuid ex_B) = None" by (simp add: ex_st1_def ex_B_def)
  from leaf_entry [OF a b c d, of ex_env 7 "''out/7''" "''http://y/kb''"]
  obtain st' entry where
    r: "process_item ex_env 7 ''out/7'' ''http://y/kb'' ex_st1 ex_B = Some (Inr st')"
      "uuidMap st' (uuid ex_B) = Some entry"
      "pathTitleList entry =
         (case uuidMap ex_st1 (parent_uuid ex_B) of None \<Rightarrow> [] | Some p \<Rightarrow> pathTitleList p) @
         [sanitize (title ex_B) @ ''.md'']"
      "pathIdList entry =
         (case uuidMap ex_st1 (parent_uuid ex_B) of None \<Rightarrow> [] | Some p \<Rightarrow> pathIdList p) @
         [uuid ex_B]"
      "path entry = join ''/'' (pathTitleList entry)"
    by blast
  from r(3) have t: "pathTitleList entry = [''Intro'', ''Hello.md'']"
    by (simp add: ex_st1_def ex_B_def dir_item_def sanitize_Hello)
  from r(4) have i: "pathIdList entry = [''A'', ''B'']"
    by (simp add: ex_st1_def ex_B_def dir_item_def)
  from r(5) t have p: "path entry = ''Intro/Hello.md''" by simp
  from r(2) have "uuidMap st' ''B'' = Some entry" by (simp add: ex_B_def)
  with a b c d r(1) t i p show ?thesis by blast
qed

text \<open>
  Claim C5, amended: a node that is not skipped and whose type is not a string is ignored,
  whatever its document reference and child reference. A node that is not skipped and whose
  type is a string is directory-like if the lower-cased type is \<open>title\<close> or its child
  reference is not empty; otherwise it is a leaf if its document reference is not empty;
  otherwise it is ignored. An ignored node raises no error and leaves the state, and so the
  resolution map, as it was.
\<close>

theorem classification:
  assumes "uuidMap st (uuid item) = None"
  shows "(toc_type item = None \<longrightarrow> process_item e bid bookPath pre st item = Some (Inr st)) \<and>
         (\<forall>ty. toc_type item = Some ty \<longrightarrow>
            process_item e bid bookPath pre st item =
              (if toLocaleLowerCase ty = ''title'' \<or> child_uuid item \<noteq> []
               then process_dir e bookPath st item
               else if url item \<noteq> []
               then Some (Inr (process_leaf e bid bookPath pre st item))
               else Some (Inr st)))"
  using assms by (simp add: process_item_def is_dir_def)

theorem classification_witness:
  "uuidMap ex_st (uuid ex_A) = None \<and> uuidMap ex_st (uuid ex_B) = None \<and>
   uuidMap ex_st (uuid ex_N) = None \<and>
   process_item ex_env 7 ''out/7'' ''http://y/kb'' ex_st ex_A = process_dir ex_env ''out/7'' ex_st ex_A \<and>
   process_item ex_env 7 ''out/7'' ''http://y/kb'' ex_st ex_B =
     Some (Inr (process_leaf ex_env 7 ''out/7'' ''http://y/kb'' ex_st ex_B)) \<and>
   process_item ex_env 7 ''out/7'' ''http://y/kb'' ex_st ex_N = Some (Inr ex_st)"
proof -
  have a: "uuidMap ex_st (uuid ex_A) = None" and b: "uuidMap ex_st (uuid ex_B) = None"
    and n: "uuidMap ex_st (uuid ex_N) = None"
    by (simp_all add: ex_st_def)
  from classification [OF a, of ex_env 7 "''out/7''" "''http://y/kb''"]
  have 1: "process_item ex_env 7 ''out/7'' ''http://y/kb'' ex_st ex_A =
      process_dir ex_env ''out/7'' ex_st ex_A"
    by (simp add: ex_A_def)
  from classification [OF b, of ex_env 7 "''out/7''" "''http://y/kb''"]
  have 2: "process_item ex_env 7 ''out/7'' ''http://y/kb'' ex_st ex_B =
     Some (Inr (process_leaf ex_env 7 ''out/7'' ''http://y/kb'' ex_st ex_B))"
    by (simp add: ex_B_def toLocaleLowerCase_def)
  from classification [OF n, of ex_env 7 "''out/7''" "''http://y/kb''"]
  have 3: "process_item ex_env 7 ''out/7'' ''http://y/kb'' ex_st ex_N = Some (Inr ex_st)"
    by (simp add: ex_N_def)
  from a b n 1 2 3 show ?thesis by blast
qed

text \<open>
  Claim C5 as stated fails: a node with a document reference whose type is not a string
  is not skipped, and it is ignored instead of being resolved as a leaf.
\<close>

theorem classification_counterexample:
  "url ex_N \<noteq> [] \<and> uuidMap ex_st (uuid ex_N) = None \<and>
   process_item ex_env 7 ''out/7'' ''http://y/kb'' ex_st ex_N = Some (Inr ex_st)"
  by (simp add: process_item_def ex_N_def ex_st_def)

section \<open>Fatal conditions and complete progress\<close>

lemma knowledgeBaseReg_ex_page: "knowledgeBaseReg ex_page = Some ''%7B%7D''"
  by code_simp

lemma String_7: "String 7 = ''7''"
  by code_simp

lemma info_ex_env:
  "getKnowledgeBaseInfo ex_env u =
     Inr \<lparr>bookId = Some 7, bookSlug = Some ''kb'', tocList = Some [ex_A, ex_B],
          bookName = Some ''Book'', bookDesc = Some []\<rparr>"
  by (simp add: getKnowledgeBaseInfo_def ex_env_def knowledgeBaseReg_ex_page ex_book_def)

lemma info_ex_env_mkdir:
  "getKnowledgeBaseInfo ex_env_mkdir u = getKnowledgeBaseInfo ex_env u"
  by (simp add: getKnowledgeBaseInfo_def ex_env_mkdir_def ex_env_def knowledgeBaseReg_ex_page)

lemma info_ex_env_done:
  "getKnowledgeBaseInfo ex_env_done u = getKnowledgeBaseInfo ex_env u"
  by (simp add: getKnowledgeBaseInfo_def ex_env_done_def ex_env_def knowledgeBaseReg_ex_page)

lemma info_ex_env_201: "getKnowledgeBaseInfo ex_env_201 u = Inr empty_info"
  by (simp add: getKnowledgeBaseInfo_def ex_env_201_def ex_env_def)

lemma info_ex_env_notoc:
  "getKnowledgeBaseInfo ex_env_notoc u =
     Inr \<lparr>bookId = Some 7, bookSlug = Some ''kb'', tocList = Some [],
          bookName = Some ''Book'', bookDesc = Some []\<rparr>"
  by (simp add: getKnowledgeBaseInfo_def ex_env_notoc_def ex_env_def knowledgeBaseReg_ex_page
      ex_book_def)

lemma info_ex_env_parse:
  "getKnowledgeBaseInfo ex_env_parse u = Inl (External ''Unexpected token'')"
  by (simp add: getKnowledgeBaseInfo_def ex_env_parse_def ex_env_def knowledgeBaseReg_ex_page)

lemma info_ex_env_slug:
  "getKnowledgeBaseInfo ex_env_slug u =
     Inr \<lparr>bookId = Some 7, bookSlug = Some ''('', tocList = Some [ex_A, ex_B],
          bookName = Some ''Book'', bookDesc = Some []\<rparr>"
  by (simp add: getKnowledgeBaseInfo_def ex_env_slug_def ex_env_def knowledgeBaseReg_ex_page
      ex_book_def)

lemma info_ex_env_subdir:
  "getKnowledgeBaseInfo ex_env_subdir u = getKnowledgeBaseInfo ex_env u"
  by (simp add: getKnowledgeBaseInfo_def ex_env_subdir_def ex_env_def knowledgeBaseReg_ex_page)

lemma walk_ex_A: "walk Map.empty ex_A [] [] = Some ([''Intro''], [''A''])"
  by (subst walk.simps) (simp add: ex_A_def sanitize_Intro)

text \<open>The loop aborts exactly when it reaches a directory whose creation is rejected.\<close>

lemma process_item_Inl_iff:
  "process_item e bid bookPath pre st item = Some (Inl (err, tr)) \<longleftrightarrow>
     (\<exists>ty titles ids m.
        toc_type item = Some ty \<and> uuidMap st (uuid item) = None \<and> is_dir ty item \<and>
        walk (uuidMap st) item [] [] = Some (titles, ids) \<and>
        mkdir e (bookPath @ ''/'' @ join ''/'' titles) = Some m \<and> err = External m \<and>
        tr = trace st @ [Mkdir (bookPath @ ''/'' @ join ''/'' titles)])"
  by (auto simp: process_item_def process_dir_def Let_def updateProgress_def
      split: option.splits prod.splits if_splits)

lemma process_list_Inl_split:
  assumes "process_list e bid bookPath pre st tocs = Some (Inl p)"
  shows "\<exists>xs x ys st'. tocs = xs @ x # ys \<and>
           process_list e bid bookPath pre st xs = Some (Inr st') \<and>
           process_item e bid bookPath pre st' x = Some (Inl p)"
  using assms
proof (induction tocs arbitrary: st)
  case Nil
  then show ?case by simp
next
  case (Cons item items)
  show ?case
  proof (cases "process_item e bid bookPath pre st item")
    case None
    with Cons.prems show ?thesis by simp
  next
    case (Some r)
    show ?thesis
    proof (cases r)
      case (Inl q)
      with Some Cons.prems have "process_item e bid bookPath pre st item = Some (Inl p)"
        by simp
      moreover have "item # items = [] @ item # items" by simp
      moreover have "process_list e bid bookPath pre st [] = Some (Inr st)" by simp
      ultimately show ?thesis by blast
    next
      case (Inr st1)
      with Some Cons.prems have "process_list e bid bookPath pre st1 items = Some (Inl p)"
        by simp
      from Cons.IH [OF this] obtain xs x ys st' where
        s: "items = xs @ x # ys" "process_list e bid bookPath pre st1 xs = Some (Inr st')"
          "process_item e bid bookPath pre st' x = Some (Inl p)"
        by blast
      from s(1) have "item # items = (item # xs) @ x # ys" by simp
      moreover from s(2) Some Inr
      have "process_list e bid bookPath pre st (item # xs) = Some (Inr st')" by simp
      ultimately show ?thesis using s(3) by blast
    qed
  qed
qed

lemma process_list_Inl_at:
  assumes "process_list e bid bookPath pre st xs = Some (Inr st')"
    and "process_item e bid bookPath pre st' x = Some (Inl p)"
  shows "process_list e bid bookPath pre st (xs @ x # ys) = Some (Inl p)"
  using assms
  by (induction xs arbitrary: st) (auto split: option.splits sum.splits)

lemma main_ex_env_mkdir:
  "main ex_env_mkdir ''http://y/kb'' ''out'' =
     Some (Inl (External ''EACCES''), [PageGet ''http://y/kb'', Mkdir ''out/7''])"
  by (simp add: main_def info_ex_env_mkdir info_ex_env String_7)
     (simp add: ex_env_mkdir_def)

text \<open>When the book info is valid, the run is its pass: what the pass throws, the run throws.\<close>

lemma main_valid:
  assumes "getKnowledgeBaseInfo e u = Inr info" and "bookId info = Some bid" and "bid \<noteq> 0"
    and "tocList info = Some tocs" and "tocs \<noteq> []"
    and "mkdir e (distDir @ ''/'' @ String bid) = None"
    and "curr (progress e (distDir @ ''/'' @ String bid) (length tocs)) \<noteq> length tocs"
    and "url_prefix e u (bookSlug info) = Inr pre"
  shows "main e u distDir =
     (case sync e bid (distDir @ ''/'' @ String bid) pre
             (progress e (distDir @ ''/'' @ String bid) (length tocs))
             [PageGet u, Mkdir (distDir @ ''/'' @ String bid)] tocs of
        None \<Rightarrow> None
      | Some (Inl (err, tr)) \<Rightarrow> Some (Inl err, tr)
      | Some (Inr st) \<Rightarrow>
          Some (Inr (Finished st), trace st @ [GenFile (distDir @ ''/'' @ String bid)]))"
  using assms by (auto simp: main_def Let_def split: option.splits sum.splits)

text \<open>
  Claim C7, amended: when the fetched book info has no id (or the id 0), or its node sequence
  is missing or empty, the run aborts with an error, and all it has done by then is the
  request of the book page: no directory is created, no progress record is written and no
  document is fetched. These are not the only fatal conditions. The run aborts exactly
  when the fetch of the book info fails; or the info has no id or no node; or the info is
  valid and the creation of the book directory is rejected; or, the loaded progress not
  being complete, the slug does not give a valid pattern (line 145); or the loop reaches a
  directory that is not skipped and whose creation is rejected. The fetch of the book info
  fails exactly when the request of the page is rejected or the payload that the page
  holds cannot be parsed.
\<close>

theorem fatal_conditions:
  "(\<forall>info. getKnowledgeBaseInfo e u = Inr info \<and> (bookId info = None \<or> bookId info = Some 0) \<longrightarrow>
      main e u distDir = Some (Inl (Error ''No found book id''), [PageGet u])) \<and>
   (\<forall>info bid. getKnowledgeBaseInfo e u = Inr info \<and> bookId info = Some bid \<and> bid \<noteq> 0 \<and>
        (tocList info = None \<or> tocList info = Some []) \<longrightarrow>
      main e u distDir = Some (Inl (Error ''No found toc list''), [PageGet u])) \<and>
   (\<forall>err tr. main e u distDir = Some (Inl err, tr) \<longleftrightarrow>
      (getKnowledgeBaseInfo e u = Inl err \<and> tr = [PageGet u]) \<or>
      (\<exists>info. getKnowledgeBaseInfo e u = Inr info \<and>
         (bookId info = None \<or> bookId info = Some 0) \<and>
         err = Error ''No found book id'' \<and> tr = [PageGet u]) \<or>
      (\<exists>info bid. getKnowledgeBaseInfo e u = Inr info \<and> bookId info = Some bid \<and> bid \<noteq> 0 \<and>
         (tocList info = None \<or> tocList info = Some []) \<and>
         err = Error ''No found toc list'' \<and> tr = [PageGet u]) \<or>
      (\<exists>info bid tocs.
         getKnowledgeBaseInfo e u = Inr info \<and> bookId info = Some bid \<and> bid \<noteq> 0 \<and>
         tocList info = Some tocs \<and> tocs \<noteq> [] \<and>
         ((\<exists>m. mkdir e (distDir @ ''/'' @ String bid) = Some m \<and> err = External m \<and>
               tr = [PageGet u, Mkdir (distDir @ ''/'' @ String bid)]) \<or>
          (mkdir e (distDir @ ''/'' @ String bid) = None \<and>
           curr (progress e (distDir @ ''/'' @ String bid) (length tocs)) \<noteq> length tocs \<and>
           ((\<exists>m. url_prefix e u (bookSlug info) = Inl m \<and> err = External m \<and>
                 tr = [PageGet u, Mkdir (distDir @ ''/'' @ String bid)]) \<or>
            (\<exists>pre xs x ys st ty titles ids m.
               url_prefix e u (bookSlug info) = Inr pre \<and> tocs = xs @ x # ys \<and>
               sync e bid (distDir @ ''/'' @ String bid) pre
                 (progress e (distDir @ ''/'' @ String bid) (length tocs))
                 [PageGet u, Mkdir (distDir @ ''/'' @ String bid)] xs = Some (Inr st) \<and>
               toc_type x = Some ty \<and> uuidMap st (uuid x) = None \<and> is_dir ty x \<and>
               walk (uuidMap st) x [] [] = Some (titles, ids) \<and>
               mkdir e ((distDir @ ''/'' @ String bid) @ ''/'' @ join ''/'' titles) = Some m \<and>
               err = External m \<and>
               tr = trace st @
                 [Mkdir ((distDir @ ''/'' @ String bid) @ ''/'' @ join ''/'' titles)])))))) \<and>
   (\<forall>err. getKnowledgeBaseInfo e u = Inl err \<longleftrightarrow>
      (\<exists>m. err = External m \<and>
         (page_get e u = Rejected m \<or>
          (\<exists>data d. page_get e u = Response 200 data \<and> knowledgeBaseReg data = Some d \<and>
             d \<noteq> [] \<and> parse e d = Inl m))))"
proof (intro conjI allI impI)
  fix info
  assume "getKnowledgeBaseInfo e u = Inr info \<and> (bookId info = None \<or> bookId info = Some 0)"
  then show "main e u distDir = Some (Inl (Error ''No found book id''), [PageGet u])"
    by (auto simp: main_def)
next
  fix info bid
  assume "getKnowledgeBaseInfo e u = Inr info \<and> bookId info = Some bid \<and> bid \<noteq> 0 \<and>
        (tocList info = None \<or> tocList info = Some [])"
  then show "main e u distDir = Some (Inl (Error ''No found toc list''), [PageGet u])"
    by (auto simp: main_def)
next
  fix err
  show "getKnowledgeBaseInfo e u = Inl err \<longleftrightarrow>
      (\<exists>m. err = External m \<and>
         (page_get e u = Rejected m \<or>
          (\<exists>data d. page_get e u = Response 200 data \<and> knowledgeBaseReg data = Some d \<and>
             d \<noteq> [] \<and> parse e d = Inl m)))"
  proof (cases "page_get e u")
    case (Rejected m)
    then show ?thesis by (auto simp: getKnowledgeBaseInfo_def)
  next
    case (Response status data)
    show ?thesis
    proof (cases "status = 200")
      case True
      with Response show ?thesis
        by (auto simp: getKnowledgeBaseInfo_def Let_def split: option.splits sum.splits)
    next
      case False
      have "knowledgeBaseReg [] = None" by simp
      with False Response show ?thesis
        by (simp add: getKnowledgeBaseInfo_def Let_def)
    qed
  qed
next
  fix err tr
  let ?c1 = "getKnowledgeBaseInfo e u = Inl err \<and> tr = [PageGet u]"
  let ?c2 = "\<exists>info. getKnowledgeBaseInfo e u = Inr info \<and>
         (bookId info = None \<or> bookId info = Some 0) \<and>
         err = Error ''No found book id'' \<and> tr = [PageGet u]"
  let ?c3 = "\<exists>info bid. getKnowledgeBaseInfo e u = Inr info \<and> bookId info = Some bid \<and> bid \<noteq> 0 \<and>
         (tocList info = None \<or> tocList info = Some []) \<and>
         err = Error ''No found toc list'' \<and> tr = [PageGet u]"
  let ?late = "\<lambda>info bid tocs.
         ((\<exists>m. mkdir e (distDir @ ''/'' @ String bid) = Some m \<and> err = External m \<and>
               tr = [PageGet u, Mkdir (distDir @ ''/'' @ String bid)]) \<or>
          (mkdir e (distDir @ ''/'' @ String bid) = None \<and>
           curr (progress e (distDir @ ''/'' @ String bid) (length tocs)) \<noteq> length tocs \<and>
           ((\<exists>m. url_prefix e u (bookSlug info) = Inl m \<and> err = External m \<and>
                 tr = [PageGet u, Mkdir (distDir @ ''/'' @ String bid)]) \<or>
            (\<exists>pre xs x ys st ty titles ids m.
               url_prefix e u (bookSlug info) = Inr pre \<and> tocs = xs @ x # ys \<and>
               sync e bid (distDir @ ''/'' @ String bid) pre
                 (progress e (distDir @ ''/'' @ String bid) (length tocs))
                 [PageGet u, Mkdir (distDir @ ''/'' @ String bid)] xs = Some (Inr st) \<and>
               toc_type x = Some ty \<and> uuidMap st (uuid x) = None \<and> is_dir ty x \<and>
               walk (uuidMap st) x [] [] = Some (titles, ids) \<and>
               mkdir e ((distDir @ ''/'' @ String bid) @ ''/'' @ join ''/'' titles) = Some m \<and>
               err = External m \<and>
               tr = trace st @
                 [Mkdir ((distDir @ ''/'' @ String bid) @ ''/'' @ join ''/'' titles)]))))"
  let ?c4 = "\<exists>info bid tocs.
         getKnowledgeBaseInfo e u = Inr info \<and> bookId info = Some bid \<and> bid \<noteq> 0 \<and>
         tocList info = Some tocs \<and> tocs \<noteq> [] \<and> ?late info bid tocs"
  have late: "main e u distDir = Some (Inl err, tr) \<longleftrightarrow> ?late info bid tocs"
    if v: "getKnowledgeBaseInfo e u = Inr info" "bookId info = Some bid" "bid \<noteq> 0"
      "tocList info = Some tocs" "tocs \<noteq> []"
    for info bid tocs
  proof (cases "mkdir e (distDir @ ''/'' @ String bid)")
    case (Some msg)
    with v show ?thesis by (auto simp: main_def)
  next
    case None
    let ?bp = "distDir @ ''/'' @ String bid"
    let ?pb = "progress e ?bp (length tocs)"
    show ?thesis
    proof (cases "curr ?pb = length tocs")
      case True
      with v None show ?thesis by (simp add: main_def)
    next
      case False
      show ?thesis
      proof (cases "url_prefix e u (bookSlug info)")
        case (Inl msg)
        with v None False show ?thesis by (auto simp: main_def)
      next
        case (Inr pre)
        let ?st0 = "\<lparr>uuidMap = seed ?pb, errArticleCount = 0, totalArticleCount = 0,
          errArticleInfo = [], progressBar = ?pb, trace = [PageGet u, Mkdir ?bp]\<rparr>"
        have m: "main e u distDir = Some (Inl err, tr) \<longleftrightarrow>
            process_list e bid ?bp pre ?st0 tocs = Some (Inl (err, tr))"
          unfolding main_valid [OF v None False Inr] sync_def
          by (auto split: option.splits sum.splits)
        have "process_list e bid ?bp pre ?st0 tocs = Some (Inl (err, tr)) \<longleftrightarrow>
            (\<exists>xs x ys st. tocs = xs @ x # ys \<and>
               process_list e bid ?bp pre ?st0 xs = Some (Inr st) \<and>
               process_item e bid ?bp pre st x = Some (Inl (err, tr)))"
          using process_list_Inl_split [of e bid ?bp pre ?st0 tocs "(err, tr)"]
            process_list_Inl_at [of e bid ?bp pre ?st0 _ _ _ "(err, tr)"]
          by blast
        also have "\<dots> \<longleftrightarrow>
            (\<exists>xs x ys st ty titles ids m. tocs = xs @ x # ys \<and>
               process_list e bid ?bp pre ?st0 xs = Some (Inr st) \<and>
               toc_type x = Some ty \<and> uuidMap st (uuid x) = None \<and> is_dir ty x \<and>
               walk (uuidMap st) x [] [] = Some (titles, ids) \<and>
               mkdir e (?bp @ ''/'' @ join ''/'' titles) = Some m \<and> err = External m \<and>
               tr = trace st @ [Mkdir (?bp @ ''/'' @ join ''/'' titles)])"
          unfolding process_item_Inl_iff by blast
        finally have "main e u distDir = Some (Inl err, tr) \<longleftrightarrow>
            (\<exists>xs x ys st ty titles ids m. tocs = xs @ x # ys \<and>
               sync e bid ?bp pre ?pb [PageGet u, Mkdir ?bp] xs = Some (Inr st) \<and>
               toc_type x = Some ty \<and> uuidMap st (uuid x) = None \<and> is_dir ty x \<and>
               walk (uuidMap st) x [] [] = Some (titles, ids) \<and>
               mkdir e (?bp @ ''/'' @ join ''/'' titles) = Some m \<and> err = External m \<and>
               tr = trace st @ [Mkdir (?bp @ ''/'' @ join ''/'' titles)])"
          unfolding m sync_def .
        with None False Inr show ?thesis by simp
      qed
    qed
  qed
  show "main e u distDir = Some (Inl err, tr) \<longleftrightarrow> ?c1 \<or> ?c2 \<or> ?c3 \<or> ?c4"
  proof (cases "getKnowledgeBaseInfo e u")
    case (Inl x)
    then show ?thesis by (auto simp: main_def)
  next
    case (Inr info)
    show ?thesis
    proof (cases "bookId info = None \<or> bookId info = Some 0")
      case True
      with Inr show ?thesis by (auto simp: main_def)
    next
      case False
      then obtain bid where b: "bookId info = Some bid" "bid \<noteq> 0" by auto
      show ?thesis
      proof (cases "tocList info = None \<or> tocList info = Some []")
        case True
        with Inr b show ?thesis by (auto simp: main_def)
      next
        case False
        then obtain tocs where t: "tocList info = Some tocs" "tocs \<noteq> []" by auto
        from late [OF Inr b t] Inr b t show ?thesis by simp
      qed
    qed
  qed
qed

theorem fatal_conditions_witness:
  "getKnowledgeBaseInfo ex_env_201 ''http://y/kb'' = Inr empty_info \<and> bookId empty_info = None \<and>
   main ex_env_201 ''http://y/kb'' ''out'' =
     Some (Inl (Error ''No found book id''), [PageGet ''http://y/kb'']) \<and>
   (\<exists>info. getKnowledgeBaseInfo ex_env_notoc ''http://y/kb'' = Inr info \<and>
      bookId info = Some 7 \<and> tocList info = Some []) \<and>
   main ex_env_notoc ''http://y/kb'' ''out'' =
     Some (Inl (Error ''No found toc list''), [PageGet ''http://y/kb'']) \<and>
   mkdir ex_env_mkdir ''out/7'' = Some ''EACCES'' \<and>
   main ex_env_mkdir ''http://y/kb'' ''out'' =
     Some (Inl (External ''EACCES''), [PageGet ''http://y/kb'', Mkdir ''out/7'']) \<and>
   url_prefix ex_env_slug ''http://y/kb'' (Some ''('') = Inl ''Invalid regular expression'' \<and>
   main ex_env_slug ''http://y/kb'' ''out'' =
     Some (Inl (External ''Invalid regular expression''),
           [PageGet ''http://y/kb'', Mkdir ''out/7'']) \<and>
   mkdir ex_env_subdir ''out/7/Intro'' = Some ''EACCES'' \<and>
   main ex_env_subdir ''http://y/kb'' ''out'' =
     Some (Inl (External ''EACCES''),
           [PageGet ''http://y/kb'', Mkdir ''out/7'', Mkdir ''out/7/Intro'']) \<and>
   parse ex_env_parse ''%7B%7D'' = Inl ''Unexpected token'' \<and>
   getKnowledgeBaseInfo ex_env_parse ''http://y/kb'' = Inl (External ''Unexpected token'')"
proof -
  let ?u = "''http://y/kb''"
  have a: "getKnowledgeBaseInfo ex_env_201 ?u = Inr empty_info"
    by (rule info_ex_env_201)
  have b: "bookId empty_info = None" by (simp add: empty_info_def)
  from a b have "getKnowledgeBaseInfo ex_env_201 ?u = Inr empty_info \<and>
      (bookId empty_info = None \<or> bookId empty_info = Some 0)"
    by simp
  then have c: "main ex_env_201 ?u ''out'' = Some (Inl (Error ''No found book id''), [PageGet ?u])"
    by (rule fatal_conditions [THEN conjunct1, THEN spec, THEN mp])
  let ?info = "\<lparr>bookId = Some 7, bookSlug = Some ''kb'', tocList = Some [],
          bookName = Some ''Book'', bookDesc = Some []\<rparr>"
  have d: "getKnowledgeBaseInfo ex_env_notoc ?u = Inr ?info"
    by (rule info_ex_env_notoc)
  have "getKnowledgeBaseInfo ex_env_notoc ?u = Inr ?info \<and> bookId ?info = Some 7 \<and>
      (7::int) \<noteq> 0 \<and> (tocList ?info = None \<or> tocList ?info = Some [])"
    using d by simp
  then have f: "main ex_env_notoc ?u ''out'' = Some (Inl (Error ''No found toc list''), [PageGet ?u])"
    by (rule fatal_conditions [THEN conjunct2, THEN conjunct1, THEN spec, THEN spec, THEN mp])
  from d have g: "\<exists>info. getKnowledgeBaseInfo ex_env_notoc ?u = Inr info \<and>
      bookId info = Some 7 \<and> tocList info = Some []"
    by simp
  have h: "mkdir ex_env_mkdir ''out/7'' = Some ''EACCES''"
    by (simp add: ex_env_mkdir_def)
  note run = fatal_conditions
    [THEN conjunct2, THEN conjunct2, THEN conjunct1, THEN spec, THEN spec, THEN iffD2]
  have i: "main ex_env_mkdir ?u ''out'' =
     Some (Inl (External ''EACCES''), [PageGet ?u, Mkdir ''out/7''])"
    by (rule run) (simp add: info_ex_env_mkdir info_ex_env String_7 h)
  have j: "url_prefix ex_env_slug ?u (Some ''('') = Inl ''Invalid regular expression''"
    by (simp add: ex_env_slug_def)
  have j': "mkdir ex_env_slug d = None" "progress ex_env_slug d n = init n []" for d n
    by (simp_all add: ex_env_slug_def ex_env_def)
  have k: "main ex_env_slug ?u ''out'' =
     Some (Inl (External ''Invalid regular expression''), [PageGet ?u, Mkdir ''out/7''])"
    by (rule run) (simp add: info_ex_env_slug String_7 j j' init_def)
  have l: "mkdir ex_env_subdir ''out/7/Intro'' = Some ''EACCES''"
    by (simp add: ex_env_subdir_def)
  have l': "mkdir ex_env_subdir ''out/7'' = None" "progress ex_env_subdir d n = init n []"
    "url_prefix ex_env_subdir v s = Inr v" for d n v s
    by (simp_all add: ex_env_subdir_def ex_env_def)
  let ?st = "\<lparr>uuidMap = Map.empty, errArticleCount = 0, totalArticleCount = 0,
    errArticleInfo = [], progressBar = init 2 [], trace = [PageGet ?u, Mkdir ''out/7'']\<rparr>"
  have dirA: "\<exists>pre xs x ys st ty titles ids m.
      Inr ?u = Inr pre \<and> [ex_A, ex_B] = xs @ x # ys \<and>
      sync ex_env_subdir 7 ''out/7'' pre (init 2 []) [PageGet ?u, Mkdir ''out/7''] xs =
        Some (Inr st) \<and>
      toc_type x = Some ty \<and> uuidMap st (uuid x) = None \<and> is_dir ty x \<and>
      walk (uuidMap st) x [] [] = Some (titles, ids) \<and>
      mkdir ex_env_subdir (''out/7'' @ ''/'' @ join ''/'' titles) = Some m \<and>
      External ''EACCES'' = External m \<and>
      [PageGet ?u, Mkdir ''out/7'', Mkdir ''out/7/Intro''] =
        trace st @ [Mkdir (''out/7'' @ ''/'' @ join ''/'' titles)]"
  proof (rule exI [of _ ?u], rule exI [of _ "[]"], rule exI [of _ ex_A], rule exI [of _ "[ex_B]"],
      rule exI [of _ ?st], rule exI [of _ "''TITLE''"], rule exI [of _ "[''Intro'']"],
      rule exI [of _ "[''A'']"], rule exI [of _ "''EACCES''"], intro conjI)
    show "sync ex_env_subdir 7 ''out/7'' ?u (init 2 []) [PageGet ?u, Mkdir ''out/7''] [] =
        Some (Inr ?st)"
      by (simp add: sync_def seed_def init_def)
    show "walk (uuidMap ?st) ex_A [] [] = Some ([''Intro''], [''A''])"
      by (simp add: walk_ex_A)
    show "is_dir ''TITLE'' ex_A" by (simp add: is_dir_def ex_A_def)
    show "mkdir ex_env_subdir (''out/7'' @ ''/'' @ join ''/'' [''Intro'']) = Some ''EACCES''"
      by (simp add: l)
  qed (simp_all add: ex_A_def)
  have m: "main ex_env_subdir ?u ''out'' =
     Some (Inl (External ''EACCES''), [PageGet ?u, Mkdir ''out/7'', Mkdir ''out/7/Intro''])"
    apply (rule run)
    apply (simp only: info_ex_env_subdir info_ex_env)
    apply (intro disjI2)
    apply (rule exI [of _ "\<lparr>bookId = Some 7, bookSlug = Some ''kb'', tocList = Some [ex_A, ex_B],
          bookName = Some ''Book'', bookDesc = Some []\<rparr>"])
    apply (rule exI [of _ 7])
    apply (rule exI [of _ "[ex_A, ex_B]"])
    using dirA
    apply (simp add: String_7 l' init_def numeral_2_eq_2)
    done
  have n: "parse ex_env_parse ''%7B%7D'' = Inl ''Unexpected token''"
    by (simp add: ex_env_parse_def)
  have n': "page_get ex_env_parse ?u = Response 200 ex_page"
    by (simp add: ex_env_parse_def ex_env_def)
  have "\<exists>msg. External ''Unexpected token'' = External msg \<and>
         (page_get ex_env_parse ?u = Rejected msg \<or>
          (\<exists>data d. page_get ex_env_parse ?u = Response 200 data \<and>
             knowledgeBaseReg data = Some d \<and> d \<noteq> [] \<and> parse ex_env_parse d = Inl msg))"
    using n n' knowledgeBaseReg_ex_page by auto
  then have o: "getKnowledgeBaseInfo ex_env_parse ?u = Inl (External ''Unexpected token'')"
    by (rule fatal_conditions
      [THEN conjunct2, THEN conjunct2, THEN conjunct2, THEN spec, THEN iffD2])
  from a b c g f h i j k l m n o show ?thesis by (intro conjI)
qed

text \<open>
  Claim C7 as stated fails: the book has an id and two nodes, and the run aborts because
  the book directory cannot be created; another run aborts because the payload of the
  book page cannot be parsed.
\<close>

theorem fatal_conditions_counterexample:
  "getKnowledgeBaseInfo ex_env_mkdir ''http://y/kb'' =
     Inr \<lparr>bookId = Some 7, bookSlug = Some ''kb'', tocList = Some [ex_A, ex_B],
          bookName = Some ''Book'', bookDesc = Some []\<rparr> \<and>
   main ex_env_mkdir ''http://y/kb'' ''out'' =
     Some (Inl (External ''EACCES''), [PageGet ''http://y/kb'', Mkdir ''out/7'']) \<and>
   main ex_env_parse ''http://y/kb'' ''out'' =
     Some (Inl (External ''Unexpected token''), [PageGet ''http://y/kb''])"
proof -
  have "main ex_env_mkdir ''http://y/kb'' ''out'' =
     Some (Inl (External ''EACCES''), [PageGet ''http://y/kb'', Mkdir ''out/7''])"
    by (rule main_ex_env_mkdir)
  moreover have "main ex_env_parse ''http://y/kb'' ''out'' =
     Some (Inl (External ''Unexpected token''), [PageGet ''http://y/kb''])"
    by (simp add: main_def info_ex_env_parse)
  ultimately show ?thesis
    by (simp add: info_ex_env_mkdir info_ex_env)
qed

text \<open>
  Claim C8, amended: when the book info is valid, the book directory can be created and the
  loaded progress is complete (its completed count equals the number of nodes), the run
  returns at once: it has created the book directory, which precedes the test, and done
  nothing else. No document is fetched, no directory of a node is created, no record is
  appended and there is no failure report.
\<close>

theorem complete_returns:
  assumes "getKnowledgeBaseInfo e u = Inr info" and "bookId info = Some bid" and "bid \<noteq> 0"
    and "tocList info = Some tocs" and "tocs \<noteq> []"
    and "mkdir e (distDir @ ''/'' @ String bid) = None"
    and "curr (progress e (distDir @ ''/'' @ String bid) (length tocs)) = length tocs"
  shows "main e u distDir =
           Some (Inr AlreadyComplete, [PageGet u, Mkdir (distDir @ ''/'' @ String bid)])"
  using assms by (simp add: main_def)

lemma curr_ex_env_done: "curr (progress ex_env_done d n) = Suc (Suc 0)"
  by (simp add: ex_env_done_def init_def)

theorem complete_returns_witness:
  "main ex_env_done ''http://y/kb'' ''dist'' =
     Some (Inr AlreadyComplete, [PageGet ''http://y/kb'', Mkdir ''dist/7''])"
proof -
  have "mkdir ex_env_done (''dist'' @ ''/'' @ String 7) = None"
    by (simp add: ex_env_done_def ex_env_def)
  moreover have "curr (progress ex_env_done (''dist'' @ ''/'' @ String 7) (length [ex_A, ex_B]))
      = length [ex_A, ex_B]"
    by (simp add: curr_ex_env_done)
  ultimately show ?thesis
    using complete_returns [of ex_env_done "''http://y/kb''" _ 7 "[ex_A, ex_B]" "''dist''"]
    by (simp add: info_ex_env_done info_ex_env String_7)
qed

text \<open>
  Claim C8 as stated fails: on complete progress the run has made one directory-creation
  call, for the book directory.
\<close>

theorem complete_returns_counterexample:
  "curr (progress ex_env_done ''out/7'' 2) = 2 \<and>
   main ex_env_done ''http://y/kb'' ''out'' =
     Some (Inr AlreadyComplete, [PageGet ''http://y/kb'', Mkdir ''out/7''])"
proof -
  have "main ex_env_done ''http://y/kb'' ''out'' =
     Some (Inr AlreadyComplete, [PageGet ''http://y/kb'', Mkdir ''out/7''])"
    by (simp add: main_def info_ex_env_done info_ex_env String_7)
       (simp add: ex_env_done_def ex_env_def init_def Let_def)
  then show ?thesis by (simp add: curr_ex_env_done)
qed

section \<open>The book info\<close>

lemma find_Some_set: "find P xs = Some x \<Longrightarrow> x \<in> set xs \<and> P x"
  by (induction xs) (auto split: if_splits)

lemma capture_at_nonempty: "capture_at s = Some d \<Longrightarrow> d \<noteq> []"
proof -
  assume a: "capture_at s = Some d"
  let ?rest = "drop (length reg_open) s"
  from a obtain k where
    k: "find (\<lambda>k. take (length reg_close) (drop k ?rest) = reg_close)
          (rev [1..<Suc (length (dot_run ?rest))]) = Some k"
      and d: "d = take k ?rest"
    by (auto simp: capture_at_def Let_def split: if_splits)
  from find_Some_set [OF k] have "1 \<le> k"
    and c: "take (length reg_close) (drop k ?rest) = reg_close"
    by auto
  from c have "drop k ?rest \<noteq> []"
    by (auto simp: reg_close_def)
  then have "k < length ?rest" by simp
  with \<open>1 \<le> k\<close> d show "d \<noteq> []" by auto
qed

lemma knowledgeBaseReg_nonempty: "knowledgeBaseReg html = Some d \<Longrightarrow> d \<noteq> []"
  by (induction html) (auto split: option.splits dest: capture_at_nonempty)

text \<open>
  Claim C9, amended: \<open>getKnowledgeBaseInfo\<close> fails exactly when the request itself is rejected,
  or when the response has the status 200, holds the embedded data block and the payload
  of the block cannot be decoded and parsed. It returns the empty book info exactly when
  the response has another status than 200, or holds no embedded data block, or holds one
  whose parsed payload has no book.
\<close>

theorem book_info_result:
  "(getKnowledgeBaseInfo e u = Inl err \<longleftrightarrow>
      (\<exists>m. err = External m \<and>
         (page_get e u = Rejected m \<or>
          (\<exists>html d. page_get e u = Response 200 html \<and> knowledgeBaseReg html = Some d \<and>
             parse e d = Inl m)))) \<and>
   (getKnowledgeBaseInfo e u = Inr empty_info \<longleftrightarrow>
      (\<exists>status html. page_get e u = Response status html \<and>
         (status \<noteq> 200 \<or> knowledgeBaseReg html = None \<or>
          (\<exists>d. knowledgeBaseReg html = Some d \<and> parse e d = Inr None))))"
proof (cases "page_get e u")
  case (Rejected m)
  then show ?thesis by (auto simp: getKnowledgeBaseInfo_def)
next
  case (Response status html)
  show ?thesis
  proof (cases "status = 200")
    case False
    with Response show ?thesis by (auto simp: getKnowledgeBaseInfo_def)
  next
    case True
    show ?thesis
    proof (cases "knowledgeBaseReg html")
      case None
      with Response True show ?thesis by (auto simp: getKnowledgeBaseInfo_def)
    next
      case (Some d)
      then have "d \<noteq> []" by (rule knowledgeBaseReg_nonempty)
      with Response True Some show ?thesis
        by (auto simp: getKnowledgeBaseInfo_def empty_info_def split: sum.splits option.splits)
    qed
  qed
qed

theorem book_info_result_witness:
  "page_get ex_env_201 ''http://y/kb'' = Response 201 ex_page \<and> (201::nat) \<noteq> 200 \<and>
   getKnowledgeBaseInfo ex_env_201 ''http://y/kb'' = Inr empty_info \<and>
   page_get ex_env_parse ''http://y/kb'' = Response 200 ex_page \<and>
   knowledgeBaseReg ex_page = Some ''%7B%7D'' \<and>
   parse ex_env_parse ''%7B%7D'' = Inl ''Unexpected token'' \<and>
   getKnowledgeBaseInfo ex_env_parse ''http://y/kb'' = Inl (External ''Unexpected token'')"
proof -
  have a: "page_get ex_env_201 ''http://y/kb'' = Response 201 ex_page"
    by (simp add: ex_env_201_def)
  with book_info_result [of ex_env_201 "''http://y/kb''"]
  have b: "getKnowledgeBaseInfo ex_env_201 ''http://y/kb'' = Inr empty_info"
    by simp
  have c: "page_get ex_env_parse ''http://y/kb'' = Response 200 ex_page"
    by (simp add: ex_env_parse_def ex_env_def)
  have d: "parse ex_env_parse ''%7B%7D'' = Inl ''Unexpected token''"
    by (simp add: ex_env_parse_def)
  from book_info_result [of ex_env_parse "''http://y/kb''" "External ''Unexpected token''"]
    c d knowledgeBaseReg_ex_page
  have f: "getKnowledgeBaseInfo ex_env_parse ''http://y/kb'' = Inl (External ''Unexpected token'')"
    by simp
  from a b c d f knowledgeBaseReg_ex_page show ?thesis by simp
qed

text \<open>
  Claim C9 as stated fails: a response with the status 201 is not an error; the result is
  the empty book info, although the response holds the embedded data block.
\<close>

theorem book_info_result_counterexample:
  "page_get ex_env_201 ''http://y/kb'' = Response 201 ex_page \<and>
   getKnowledgeBaseInfo ex_env_201 ''http://y/kb'' = Inr empty_info"
  by (simp add: info_ex_env_201) (simp add: ex_env_201_def)

section \<open>The download of a document\<close>

lemma article_response_Inl:
  assumes "article_response e a = Inl err"
  shows "\<exists>m. err = Error (''download article Error: '' @ a @ '' '' @ m)"
  using assms
  by (auto simp: article_response_def Let_def split: response.splits if_splits option.splits)

lemma download_ex_env_img:
  "downloadArticle ex_env_img ex_params =
     (Inl (Error ''download article image Error: boom''),
      [ApiGet (apiUrl ex_params), ImgRun ''out/7/Intro'' ''img/B''])"
  by (simp add: downloadArticle_def article_response_def ex_env_img_def ex_env_def Let_def
      image_error_def ex_params_def)

lemma apiUrl_ex_params:
  "apiUrl ex_params =
     ''https://www.yuque.com/api/docs/x1?book_id=7&merge_dynamic_data=false&mode=markdown''"
  by (simp add: apiUrl_def ex_params_def String_7)

lemma no_slash: "CHR ''/'' \<notin> set ''download article image Error: boom''"
  by simp

lemma not_sublist_slash:
  assumes "CHR ''/'' \<in> set xs"
  shows "\<not> sublist xs ''download article image Error: boom''"
proof
  assume "sublist xs ''download article image Error: boom''"
  then have "set xs \<subseteq> set ''download article image Error: boom''"
    by (rule set_mono_sublist)
  with assms have "CHR ''/'' \<in> set ''download article image Error: boom''"
    by (rule subsetD [rotated])
  with no_slash show False by simp
qed

text \<open>
  Claim C10, amended: \<open>downloadArticle\<close> either resolves to true, after the final document
  text has been written to the destination file path, or rejects with an error: one whose
  message contains the API URL when the article cannot be fetched, one whose message
  contains the article URL when the file cannot be written, and, when the image rewriting
  throws, one whose message contains the image URL if the exception carries an error and
  a URL, and otherwise only the message of the exception. It never resolves to false.
\<close>

theorem download_result:
  "(\<exists>sourcecode md.
      article_response e (apiUrl p) = Inr sourcecode \<and>
      img_run e sourcecode (savePath p) (''img/'' @ p_uuid p) = Inr md \<and>
      write_file e (saveFilePath p) (page_text p md) = None \<and>
      downloadArticle e p =
        (Inr True,
         [ApiGet (apiUrl p), ImgRun (savePath p) (''img/'' @ p_uuid p),
          WriteFile (saveFilePath p) (page_text p md)])) \<or>
   (\<exists>m. article_response e (apiUrl p) = Inl (Error m) \<and>
      fst (downloadArticle e p) = Inl (Error m) \<and> sublist (apiUrl p) m) \<or>
   (\<exists>sourcecode x m.
      article_response e (apiUrl p) = Inr sourcecode \<and>
      img_run e sourcecode (savePath p) (''img/'' @ p_uuid p) = Inl x \<and>
      fst (downloadArticle e p) = Inl (Error m) \<and>
      (case e_error x of
         Some em \<Rightarrow>
           if e_url x \<noteq> [] then sublist (e_url x) m
           else m = ''download article image Error: '' @ e_message x
       | None \<Rightarrow> m = ''download article image Error: '' @ e_message x)) \<or>
   (\<exists>sourcecode md w m.
      article_response e (apiUrl p) = Inr sourcecode \<and>
      img_run e sourcecode (savePath p) (''img/'' @ p_uuid p) = Inr md \<and>
      write_file e (saveFilePath p) (page_text p md) = Some w \<and>
      fst (downloadArticle e p) = Inl (Error m) \<and> sublist (articleUrl p) m)"
  (is "?ok \<or> ?api \<or> ?img \<or> ?wfail")
proof (cases "article_response e (apiUrl p)")
  case (Inl err)
  then obtain m where err: "err = Error (''download article Error: '' @ apiUrl p @ '' '' @ m)"
    by (auto dest: article_response_Inl)
  let ?m = "''download article Error: '' @ apiUrl p @ '' '' @ m"
  from Inl err have "fst (downloadArticle e p) = Inl (Error ?m)"
    by (simp add: downloadArticle_def Let_def)
  moreover have "sublist (apiUrl p) ?m"
    by (rule sublist_appendI)
  moreover from Inl err have "article_response e (apiUrl p) = Inl (Error ?m)"
    by simp
  ultimately have ?api
    by (intro exI [of _ ?m] conjI)
  then show ?thesis
    by (intro disjI2 disjI1)
next
  case (Inr sourcecode)
  show ?thesis
  proof (cases "img_run e sourcecode (savePath p) (''img/'' @ p_uuid p)")
    case (Inl x)
    with Inr have r: "fst (downloadArticle e p) = Inl (image_error x)"
      by (simp add: downloadArticle_def Let_def)
    obtain m where m: "image_error x = Error m"
      by (cases "image_error x") (auto simp: image_error_def split: option.splits if_splits)
    have c: "case e_error x of
         Some em \<Rightarrow>
           if e_url x \<noteq> [] then sublist (e_url x) m
           else m = ''download article image Error: '' @ e_message x
       | None \<Rightarrow> m = ''download article image Error: '' @ e_message x"
    proof (cases "e_error x")
      case None
      with m show ?thesis by (simp add: image_error_def)
    next
      case (Some em)
      show ?thesis
      proof (cases "e_url x = []")
        case True
        with m Some show ?thesis by (simp add: image_error_def)
      next
        case False
        with m Some have "m = ''download article image Error '' @ e_url x @ '': '' @ em"
          by (simp add: image_error_def)
        moreover have
          "sublist (e_url x) (''download article image Error '' @ e_url x @ '': '' @ em)"
          by (rule sublist_appendI)
        ultimately have "sublist (e_url x) m" by (simp only:)
        with Some False show ?thesis by simp
      qed
    qed
    from r m have "fst (downloadArticle e p) = Inl (Error m)" by simp
    with Inr Inl c have ?img
      by (intro exI [of _ sourcecode] exI [of _ x] exI [of _ m] conjI)
    then show ?thesis
      by (intro disjI2 disjI1)
  next
    case img: (Inr md)
    show ?thesis
    proof (cases "write_file e (saveFilePath p) (page_text p md)")
      case None
      with Inr img have "downloadArticle e p =
        (Inr True,
         [ApiGet (apiUrl p), ImgRun (savePath p) (''img/'' @ p_uuid p),
          WriteFile (saveFilePath p) (page_text p md)])"
        by (simp add: downloadArticle_def Let_def)
      with Inr img None have ?ok
        by (intro exI [of _ sourcecode] exI [of _ md] conjI)
      then show ?thesis by (rule disjI1)
    next
      case (Some w)
      let ?m = "''download article Error '' @ articleUrl p @ '': '' @ w"
      from Some Inr img have 1: "fst (downloadArticle e p) = Inl (Error ?m)"
        by (simp add: downloadArticle_def Let_def)
      have "sublist (articleUrl p) ?m"
        by (rule sublist_appendI)
      with Inr img Some 1 have ?wfail
        by (intro exI [of _ sourcecode] exI [of _ md] exI [of _ w] exI [of _ ?m] conjI)
      then show ?thesis
        by (intro disjI2)
    qed
  qed
qed

theorem download_result_witness:
  "downloadArticle ex_env ex_params =
     (Inr True,
      [ApiGet (apiUrl ex_params), ImgRun ''out/7/Intro'' ''img/B'',
       WriteFile ''out/7/Intro/Hello.md'' (page_text ex_params ''text'')])"
proof -
  have w: "fst (downloadArticle ex_env ex_params) \<noteq> Inl (Error m)" for m
    by (simp add: downloadArticle_def article_response_def ex_env_def Let_def)
  have i: "img_run ex_env s d g \<noteq> Inl x" for s d g x
    by (simp add: ex_env_def)
  from download_result [of ex_env ex_params] w i
  obtain sourcecode md where
    r: "article_response ex_env (apiUrl ex_params) = Inr sourcecode"
       "img_run ex_env sourcecode (savePath ex_params) (''img/'' @ p_uuid ex_params) = Inr md"
       "downloadArticle ex_env ex_params =
        (Inr True,
         [ApiGet (apiUrl ex_params), ImgRun (savePath ex_params) (''img/'' @ p_uuid ex_params),
          WriteFile (saveFilePath ex_params) (page_text ex_params md)])"
    by blast
  from r(1) have "sourcecode = ''text''"
    by (simp add: article_response_def ex_env_def Let_def)
  with r(2) have "md = ''text''"
    by (simp add: ex_env_def)
  with r(3) show ?thesis
    by (simp add: ex_params_def)
qed

text \<open>
  Claim C10 as stated fails: the image rewriting throws an error without a URL, and the
  message of the rejection contains neither the API URL nor the article URL.
\<close>

theorem download_result_counterexample:
  "fst (downloadArticle ex_env_img ex_params) = Inl (Error ''download article image Error: boom'') \<and>
   \<not> sublist (apiUrl ex_params) ''download article image Error: boom'' \<and>
   \<not> sublist (articleUrl ex_params) ''download article image Error: boom''"
proof -
  have "CHR ''/'' \<in> set (apiUrl ex_params)"
    by (simp add: apiUrl_def)
  then have 1: "\<not> sublist (apiUrl ex_params) ''download article image Error: boom''"
    by (rule not_sublist_slash)
  have "CHR ''/'' \<in> set (articleUrl ex_params)"
    by (simp add: ex_params_def)
  then have 2: "\<not> sublist (articleUrl ex_params) ''download article image Error: boom''"
    by (rule not_sublist_slash)
  have 3: "fst (downloadArticle ex_env_img ex_params) =
      Inl (Error ''download article image Error: boom'')"
    by (simp add: download_ex_env_img)
  from 3 1 2 show ?thesis by (intro conjI)
qed

section \<open>Failed leaves\<close>

lemma progress_process_leaf:
  "progressBar (process_leaf e bid bookPath pre st item) =
     (if fetched e bid bookPath pre (uuidMap st) item
      then (progressBar st)
             \<lparr>curr := curr (progressBar st) + 1,
              progressInfo := progressInfo (progressBar st) @ [leaf_item (uuidMap st) item]\<rparr>
      else progressBar st)"
  by (simp add: process_leaf_def fetched_def updateProgress_def Let_def
      split: prod.splits sum.splits)

lemma err_process_leaf:
  "errArticleInfo (process_leaf e bid bookPath pre st item) =
     (if fetched e bid bookPath pre (uuidMap st) item then errArticleInfo st
      else errArticleInfo st @ [leaf_item (uuidMap st) item])"
  and errCount_process_leaf:
  "errArticleCount (process_leaf e bid bookPath pre st item) =
     (if fetched e bid bookPath pre (uuidMap st) item then errArticleCount st
      else errArticleCount st + 1)"
  by (simp_all add: process_leaf_def fetched_def updateProgress_def Let_def
      split: prod.splits sum.splits)

lemma toc_leaf_item: "toc (leaf_item m item) = item"
  by (simp add: leaf_item_def Let_def split: prod.splits)

lemma process_dir_Inr:
  assumes "process_dir e bookPath st item = Some (Inr st')"
  shows "\<exists>titles ids.
           walk (uuidMap st) item [] [] = Some (titles, ids) \<and>
           mkdir e (bookPath @ ''/'' @ join ''/'' titles) = None \<and>
           uuidMap st' = (uuidMap st)(uuid item \<mapsto> dir_item titles ids item) \<and>
           progressInfo (progressBar st') =
             progressInfo (progressBar st) @ [dir_item titles ids item] \<and>
           errArticleInfo st' = errArticleInfo st"
  using assms
  by (auto simp: process_dir_def updateProgress_def Let_def split: option.splits)

lemma process_item_cases:
  assumes "process_item e bid bookPath pre st item = Some (Inr st')"
  obtains
    (same) "st' = st"
      "toc_type item = None \<or> uuidMap st (uuid item) \<noteq> None \<or>
       (\<exists>ty. toc_type item = Some ty \<and> \<not> is_dir ty item \<and> url item = [])"
  | (dir) ty where "toc_type item = Some ty" "is_dir ty item" "uuidMap st (uuid item) = None"
      "process_dir e bookPath st item = Some (Inr st')"
  | (leaf) ty where "toc_type item = Some ty" "\<not> is_dir ty item" "url item \<noteq> []"
      "uuidMap st (uuid item) = None" "st' = process_leaf e bid bookPath pre st item"
  using assms
  by (auto simp: process_item_def split: option.splits if_splits)





lemma dom_fold_seed:
  "dom (fold (\<lambda>item m. m(uuid (toc item) \<mapsto> item)) rs m0) = dom m0 \<union> ids rs"
  by (induction rs arbitrary: m0) (auto simp: ids_def)

lemma dom_seed: "dom (seed pb) = (if isDownloadInterrupted pb then ids (progressInfo pb) else {})"
  by (simp add: seed_def dom_fold_seed)

lemma process_item_grows:
  assumes "process_item e bid bookPath pre s item = Some (Inr s')"
  shows "uuidMap s \<subseteq>\<^sub>m uuidMap s' \<and> dom (uuidMap s') \<subseteq> insert (uuid item) (dom (uuidMap s)) \<and>
         set (progressInfo (progressBar s)) \<subseteq> set (progressInfo (progressBar s'))"
  using assms
proof (cases rule: process_item_cases)
  case same
  then show ?thesis by auto
next
  case (dir ty)
  from process_dir_Inr [OF dir(4)] dir(3) show ?thesis
    by (auto simp: map_le_def)
next
  case (leaf ty)
  then show ?thesis
    by (auto simp: map_le_def uuidMap_process_leaf progress_process_leaf)
qed

lemma process_list_grows:
  assumes "process_list e bid bookPath pre s xs = Some (Inr s')"
  shows "uuidMap s \<subseteq>\<^sub>m uuidMap s' \<and> dom (uuidMap s') \<subseteq> dom (uuidMap s) \<union> set (map uuid xs) \<and>
         set (progressInfo (progressBar s)) \<subseteq> set (progressInfo (progressBar s'))"
  using assms
proof (induction xs arbitrary: s)
  case Nil
  then show ?case by simp
next
  case (Cons x xs)
  from Cons.prems obtain s1 where
    1: "process_item e bid bookPath pre s x = Some (Inr s1)"
    and 2: "process_list e bid bookPath pre s1 xs = Some (Inr s')"
    by (auto split: option.splits sum.splits)
  from process_item_grows [OF 1] Cons.IH [OF 2]
  have a: "uuidMap s \<subseteq>\<^sub>m uuidMap s1" "uuidMap s1 \<subseteq>\<^sub>m uuidMap s'"
    and b: "dom (uuidMap s1) \<subseteq> insert (uuid x) (dom (uuidMap s))"
      "dom (uuidMap s') \<subseteq> dom (uuidMap s1) \<union> set (map uuid xs)"
    and c: "set (progressInfo (progressBar s)) \<subseteq> set (progressInfo (progressBar s1))"
      "set (progressInfo (progressBar s1)) \<subseteq> set (progressInfo (progressBar s'))"
    by simp_all
  from a have "uuidMap s \<subseteq>\<^sub>m uuidMap s'" by (rule map_le_trans)
  moreover have "set (map uuid (x # xs)) = insert (uuid x) (set (map uuid xs))"
    by simp
  with b have "dom (uuidMap s') \<subseteq> dom (uuidMap s) \<union> set (map uuid (x # xs))"
    by blast
  moreover from c have
    "set (progressInfo (progressBar s)) \<subseteq> set (progressInfo (progressBar s'))"
    by blast
  ultimately show ?case by (intro conjI)
qed








lemma not_fetched_ex: "\<not> fetched ex_env_fail 7 ''out/7'' ''http://y/kb'' m ex_B"
  by (simp add: fetched_def downloadArticle_def article_response_def ex_env_fail_def ex_env_def
      Let_def)


lemma leaf_item_ex_B:
  "leaf_item [''A'' \<mapsto> dir_item [''Intro''] [''A''] ex_A] ex_B =
     \<lparr>path = ''Intro/Hello.md'', pathTitleList = [''Intro'', ''Hello.md''],
      pathIdList = [''A'', ''B''], toc = ex_B\<rparr>"
  by (simp add: leaf_item_def preItem_def dir_item_def Let_def sanitize_Hello)
     (simp add: ex_B_def sanitize_Hello)

lemma ex_run_fail:
  "\<exists>st'. sync ex_env_fail 7 ''out/7'' ''http://y/kb'' (init 2 []) [] [ex_A, ex_B] = Some (Inr st') \<and>
     errArticleInfo st' = [leaf_item [''A'' \<mapsto> dir_item [''Intro''] [''A''] ex_A] ex_B] \<and>
     progressInfo (progressBar st') = [dir_item [''Intro''] [''A''] ex_A]"
proof -
  let ?s0 = "\<lparr>uuidMap = seed (init 2 []), errArticleCount = 0, totalArticleCount = 0,
      errArticleInfo = [], progressBar = init 2 [], trace = []\<rparr>"
  have m0: "uuidMap ?s0 = Map.empty" by (simp add: seed_def init_def)
  have "process_item ex_env_fail 7 ''out/7'' ''http://y/kb'' ?s0 ex_A =
      process_dir ex_env_fail ''out/7'' ?s0 ex_A"
    by (simp add: process_item_def is_dir_def seed_def init_def ex_A_def)
  moreover have "\<exists>s1. process_dir ex_env_fail ''out/7'' ?s0 ex_A = Some (Inr s1) \<and>
      uuidMap s1 = [''A'' \<mapsto> dir_item [''Intro''] [''A''] ex_A] \<and>
      progressInfo (progressBar s1) = [dir_item [''Intro''] [''A''] ex_A] \<and>
      errArticleInfo s1 = []"
    by (simp add: process_dir_def seed_def walk_ex_A updateProgress_def Let_def init_def
        ex_env_fail_def ex_env_def)
       (simp add: ex_A_def)
  ultimately obtain s1 where
    s1: "process_item ex_env_fail 7 ''out/7'' ''http://y/kb'' ?s0 ex_A = Some (Inr s1)"
      "uuidMap s1 = [''A'' \<mapsto> dir_item [''Intro''] [''A''] ex_A]"
      "progressInfo (progressBar s1) = [dir_item [''Intro''] [''A''] ex_A]"
      "errArticleInfo s1 = []"
    by auto
  let ?s2 = "process_leaf ex_env_fail 7 ''out/7'' ''http://y/kb'' s1 ex_B"
  have "process_item ex_env_fail 7 ''out/7'' ''http://y/kb'' s1 ex_B = Some (Inr ?s2)"
    by (simp add: process_item_def s1(2) is_dir_def ex_B_def toLocaleLowerCase_def)
  with s1(1) have
    "sync ex_env_fail 7 ''out/7'' ''http://y/kb'' (init 2 []) [] [ex_A, ex_B] = Some (Inr ?s2)"
    by (simp add: sync_def)
  moreover have "errArticleInfo ?s2 = [leaf_item [''A'' \<mapsto> dir_item [''Intro''] [''A''] ex_A] ex_B]"
    by (simp add: err_process_leaf not_fetched_ex s1)
  moreover have "progressInfo (progressBar ?s2) = [dir_item [''Intro''] [''A''] ex_A]"
    by (simp add: progress_process_leaf not_fetched_ex s1)
  ultimately show ?thesis by blast
qed

section \<open>Resuming\<close>

lemma process_list_append:
  "process_list e bid bookPath pre s (xs @ ys) = Some (Inr s') \<longleftrightarrow>
     (\<exists>s1. process_list e bid bookPath pre s xs = Some (Inr s1) \<and>
           process_list e bid bookPath pre s1 ys = Some (Inr s'))"
  by (induction xs arbitrary: s) (auto split: option.splits sum.splits)

lemma leaf_item_cong:
  "m (parent_uuid item) = m' (parent_uuid item) \<Longrightarrow> leaf_item m item = leaf_item m' item"
  by (simp add: leaf_item_def preItem_def)

text \<open>The map after a round depends on the map before it and on the node only.\<close>

lemma process_item_same_map:
  assumes "process_item e bid bookPath pre s item = Some (Inr s')"
    and "uuidMap t = uuidMap s"
  shows "(\<forall>t'. process_item e' bid bookPath pre t item = Some (Inr t') \<longrightarrow>
            uuidMap t' = uuidMap s') \<and>
         ((\<forall>d. mkdir e' d = None) \<longrightarrow>
            (\<exists>t'. process_item e' bid bookPath pre t item = Some (Inr t')))"
  using assms(1)
proof (cases rule: process_item_cases)
  case same
  with assms(2) have "process_item e' bid bookPath pre t item = Some (Inr t)"
    by (auto simp: process_item_def split: option.splits)
  with same assms(2) show ?thesis by simp
next
  case (dir ty)
  from process_dir_Inr [OF dir(4)] obtain titles idl where
    w: "walk (uuidMap s) item [] [] = Some (titles, idl)"
      and m: "uuidMap s' = (uuidMap s)(uuid item \<mapsto> dir_item titles idl item)"
    by blast
  from dir assms(2)
  have eq: "process_item e' bid bookPath pre t item = process_dir e' bookPath t item"
    by (simp add: process_item_def)
  have 1: "\<forall>t'. process_item e' bid bookPath pre t item = Some (Inr t') \<longrightarrow>
            uuidMap t' = uuidMap s'"
    unfolding eq using w m assms(2)
    by (auto simp: process_dir_def updateProgress_def Let_def split: option.splits)
  have 2: "(\<forall>d. mkdir e' d = None) \<longrightarrow>
            (\<exists>t'. process_item e' bid bookPath pre t item = Some (Inr t'))"
    unfolding eq using w assms(2)
    by (simp add: process_dir_def updateProgress_def Let_def)
  from 1 2 show ?thesis ..
next
  case (leaf ty)
  with assms(2) have "process_item e' bid bookPath pre t item =
      Some (Inr (process_leaf e' bid bookPath pre t item))"
    by (simp add: process_item_def)
  with leaf(5) assms(2) show ?thesis
    by (simp add: uuidMap_process_leaf)
qed

lemma process_list_same_map:
  assumes "process_list e bid bookPath pre s xs = Some (Inr s')"
    and "uuidMap t = uuidMap s" and "\<forall>d. mkdir e' d = None"
  shows "\<exists>t'. process_list e' bid bookPath pre t xs = Some (Inr t') \<and> uuidMap t' = uuidMap s'"
  using assms(1,2)
proof (induction xs arbitrary: s t)
  case Nil
  then show ?case by simp
next
  case (Cons x xs)
  from Cons.prems(1) obtain s1 where
    1: "process_item e bid bookPath pre s x = Some (Inr s1)"
    and 2: "process_list e bid bookPath pre s1 xs = Some (Inr s')"
    by (auto split: option.splits sum.splits)
  from process_item_same_map [OF 1 Cons.prems(2), of e'] assms(3) obtain t1 where
    3: "process_item e' bid bookPath pre t x = Some (Inr t1)" and 4: "uuidMap t1 = uuidMap s1"
    by blast
  from Cons.IH [OF 2 4] 3 show ?case by simp
qed

lemma process_list_maps_equal:
  assumes "process_list e bid bookPath pre s xs = Some (Inr s')"
    and "process_list e' bid bookPath pre t xs = Some (Inr t')"
    and "uuidMap t = uuidMap s"
  shows "uuidMap t' = uuidMap s'"
  using assms
proof (induction xs arbitrary: s t)
  case Nil
  then show ?case by simp
next
  case (Cons x xs)
  from Cons.prems(1) obtain s1 where
    1: "process_item e bid bookPath pre s x = Some (Inr s1)"
    and 2: "process_list e bid bookPath pre s1 xs = Some (Inr s')"
    by (auto split: option.splits sum.splits)
  from Cons.prems(2) obtain t1 where
    3: "process_item e' bid bookPath pre t x = Some (Inr t1)"
    and 4: "process_list e' bid bookPath pre t1 xs = Some (Inr t')"
    by (auto split: option.splits sum.splits)
  from process_item_same_map [OF 1 Cons.prems(3), of e'] 3 have "uuidMap t1 = uuidMap s1"
    by blast
  with Cons.IH [OF 2 4] show ?case by simp
qed

lemma process_item_rec_self:
  assumes "process_item e bid bookPath pre s item = Some (Inr s')" and "rec_self s"
  shows "rec_self s'"
  using assms(1)
proof (cases rule: process_item_cases)
  case same
  with assms(2) show ?thesis by simp
next
  case (dir ty)
  from assms(2) dir(3) have "\<forall>r \<in> set (progressInfo (progressBar s)). uuid (toc r) \<noteq> uuid item"
    by (auto simp: rec_self_def)
  with process_dir_Inr [OF dir(4)] assms(2) show ?thesis
    by (auto simp: rec_self_def dir_item_def)
next
  case (leaf ty)
  from assms(2) leaf(4) have "\<forall>r \<in> set (progressInfo (progressBar s)). uuid (toc r) \<noteq> uuid item"
    by (auto simp: rec_self_def)
  with leaf(5) assms(2) show ?thesis
    by (auto simp: rec_self_def uuidMap_process_leaf progress_process_leaf toc_leaf_item)
qed

lemma process_list_rec_self:
  assumes "process_list e bid bookPath pre s xs = Some (Inr s')" and "rec_self s"
  shows "rec_self s'"
  using assms
proof (induction xs arbitrary: s)
  case Nil
  then show ?case by simp
next
  case (Cons x xs)
  from Cons.prems(1) obtain s1 where
    1: "process_item e bid bookPath pre s x = Some (Inr s1)"
    and 2: "process_list e bid bookPath pre s1 xs = Some (Inr s')"
    by (auto split: option.splits sum.splits)
  from process_item_rec_self [OF 1 Cons.prems(2)] Cons.IH [OF 2] show ?case by simp
qed

lemma fold_seed_le:
  assumes "\<forall>r \<in> set rs. m (uuid (toc r)) = Some r" and "m0 \<subseteq>\<^sub>m m"
  shows "fold (\<lambda>item m. m(uuid (toc item) \<mapsto> item)) rs m0 \<subseteq>\<^sub>m m"
  using assms
proof (induction rs arbitrary: m0)
  case Nil
  then show ?case by simp
next
  case (Cons r rs)
  from Cons.prems have 1: "m0(uuid (toc r) \<mapsto> r) \<subseteq>\<^sub>m m"
    by (auto simp: map_le_def)
  from Cons.prems(1) have 2: "\<forall>r \<in> set rs. m (uuid (toc r)) = Some r"
    by simp
  have "fold (\<lambda>item m. m(uuid (toc item) \<mapsto> item)) rs (m0(uuid (toc r) \<mapsto> r)) \<subseteq>\<^sub>m m"
    using 2 1 by (rule Cons.IH)
  then show ?case by (simp only: fold_simps)
qed

lemma map_add_upd_dom: "k \<in> dom S \<Longrightarrow> m(k \<mapsto> v) ++ S = m ++ S"
  by (rule ext) (auto simp: map_add_def split: option.splits)

lemma replay_prefix:
  assumes "process_list e1 bid bookPath pre s P = Some (Inr s1)"
    and "S \<subseteq>\<^sub>m uuidMap s1"
    and "ids (progressInfo (progressBar s1)) \<subseteq> dom S"
    and "ordered P"
    and "uuidMap t = uuidMap s ++ S"
  shows "\<exists>t1. process_list e2 bid bookPath pre t P = Some (Inr t1) \<and>
              uuidMap t1 = uuidMap s1 ++ S"
  using assms(1,4,5)
proof (induction P arbitrary: s t)
  case Nil
  then show ?case by simp
next
  case (Cons x xs)
  from Cons.prems(1) obtain s' where
    1: "process_item e1 bid bookPath pre s x = Some (Inr s')"
    and 2: "process_list e1 bid bookPath pre s' xs = Some (Inr s1)"
    by (auto split: option.splits sum.splits)
  from Cons.prems(2) have ord: "parent_uuid x \<notin> set (map uuid (x # xs))" and ord': "ordered xs"
    by simp_all
  note tmap = Cons.prems(3)
  have skip: "\<exists>t1. process_list e2 bid bookPath pre t (x # xs) = Some (Inr t1) \<and>
              uuidMap t1 = uuidMap s1 ++ S"
    if a: "process_item e2 bid bookPath pre t x = Some (Inr t)"
      and b: "uuidMap t = uuidMap s' ++ S"
  proof -
    from Cons.IH [OF 2 ord' b] obtain t1 where
      "process_list e2 bid bookPath pre t xs = Some (Inr t1)" "uuidMap t1 = uuidMap s1 ++ S"
      by blast
    with a show ?thesis by simp
  qed
  have indom: "\<exists>t1. process_list e2 bid bookPath pre t (x # xs) = Some (Inr t1) \<and>
              uuidMap t1 = uuidMap s1 ++ S"
    if ty: "toc_type x = Some ty" and d: "uuid x \<in> dom S"
      and m: "uuidMap s' = (uuidMap s)(uuid x \<mapsto> v)" for ty v
  proof (rule skip)
    from d tmap have "uuidMap t (uuid x) \<noteq> None"
      by (auto simp: map_add_def split: option.splits)
    with ty show "process_item e2 bid bookPath pre t x = Some (Inr t)"
      by (simp add: process_item_def)
    from d m tmap show "uuidMap t = uuidMap s' ++ S"
      by (simp add: map_add_upd_dom)
  qed
  from 1 show ?case
  proof (cases rule: process_item_cases)
    case same
    have "process_item e2 bid bookPath pre t x = Some (Inr t)"
    proof (cases "toc_type x")
      case None
      then show ?thesis by (simp add: process_item_def)
    next
      case (Some ty)
      show ?thesis
      proof (cases "uuidMap s (uuid x) = None")
        case True
        with same(2) Some have "\<not> is_dir ty x \<and> url x = []" by auto
        with Some show ?thesis by (simp add: process_item_def)
      next
        case False
        with tmap have "uuidMap t (uuid x) \<noteq> None"
          by (auto simp: map_add_def split: option.splits)
        with Some show ?thesis by (simp add: process_item_def)
      qed
    qed
    moreover from same(1) tmap have "uuidMap t = uuidMap s' ++ S" by simp
    ultimately show ?thesis by (rule skip)
  next
    case (dir ty)
    from process_dir_Inr [OF dir(4)] obtain titles idl where
      m: "uuidMap s' = (uuidMap s)(uuid x \<mapsto> dir_item titles idl x)"
      and r: "progressInfo (progressBar s') =
          progressInfo (progressBar s) @ [dir_item titles idl x]"
      by blast
    from r have "dir_item titles idl x \<in> set (progressInfo (progressBar s'))" by simp
    with process_list_grows [OF 2]
    have "dir_item titles idl x \<in> set (progressInfo (progressBar s1))" by blast
    then have "uuid x \<in> ids (progressInfo (progressBar s1))"
      by (force simp: ids_def dir_item_def)
    with assms(3) have "uuid x \<in> dom S" by blast
    with dir(1) show ?thesis using m by (rule indom)
  next
    case (leaf ty)
    have m: "uuidMap s' = (uuidMap s)(uuid x \<mapsto> leaf_item (uuidMap s) x)"
      by (simp add: leaf(5) uuidMap_process_leaf)
    show ?thesis
    proof (cases "uuid x \<in> dom S")
      case True
      with leaf(1) show ?thesis using m by (rule indom)
    next
      case False
      with leaf(4) tmap have n: "uuidMap t (uuid x) = None"
        by (auto simp: map_add_def split: option.splits)
      let ?t' = "process_leaf e2 bid bookPath pre t x"
      from leaf(1,2,3) n have a: "process_item e2 bid bookPath pre t x = Some (Inr ?t')"
        by (simp add: process_item_def)
      have par: "uuidMap t (parent_uuid x) = uuidMap s (parent_uuid x)"
      proof (cases "parent_uuid x \<in> dom S")
        case False
        with tmap show ?thesis by (simp add: map_add_dom_app_simps)
      next
        case True
        with assms(2) have s1p: "uuidMap s1 (parent_uuid x) = S (parent_uuid x)"
          by (auto simp: map_le_def)
        with True have "parent_uuid x \<in> dom (uuidMap s1)" by (auto simp: domIff)
        with process_list_grows [OF Cons.prems(1)] ord
        have "parent_uuid x \<in> dom (uuidMap s)" by blast
        moreover from process_list_grows [OF Cons.prems(1)]
        have "uuidMap s \<subseteq>\<^sub>m uuidMap s1" by simp
        ultimately have "uuidMap s (parent_uuid x) = uuidMap s1 (parent_uuid x)"
          by (auto simp: map_le_def)
        with s1p True tmap show ?thesis
          by (simp add: map_add_dom_app_simps)
      qed
      then have "leaf_item (uuidMap t) x = leaf_item (uuidMap s) x"
        by (rule leaf_item_cong)
      with False m tmap have b: "uuidMap ?t' = uuidMap s' ++ S"
        by (simp add: uuidMap_process_leaf map_add_upd_left)
      from Cons.IH [OF 2 ord' b] obtain t1 where
        "process_list e2 bid bookPath pre ?t' xs = Some (Inr t1)" "uuidMap t1 = uuidMap s1 ++ S"
        by blast
      with a show ?thesis by simp
    qed
  qed
qed

lemma ordered_append: "ordered (xs @ ys) \<Longrightarrow> ordered xs"
  by (induction xs) auto

lemma ordered_take: "ordered xs \<Longrightarrow> ordered (take k xs)"
  using ordered_append [of "take k xs" "drop k xs"] by simp

lemma map_add_le_same: "S \<subseteq>\<^sub>m m \<Longrightarrow> m ++ S = m"
  by (rule map_add_subsumed2)

lemma resume_replay:
  assumes "ordered tocs"
    and "sync e1 bid bookPath pre (init (length tocs) []) tr1 (take k tocs) = Some (Inr st1)"
    and "sync e3 bid bookPath pre (init (length tocs) []) tr3 tocs = Some (Inr st3)"
    and "\<forall>d. mkdir e2 d = None"
  shows "\<exists>st2. sync e2 bid bookPath pre
                 (init (length tocs) (progressInfo (progressBar st1))) tr2 tocs = Some (Inr st2) \<and>
               uuidMap st2 = uuidMap st3"
proof -
  let ?n = "length tocs"
  let ?R = "progressInfo (progressBar st1)"
  let ?pb = "init ?n ?R"
  let ?s0 = "\<lambda>tr. \<lparr>uuidMap = seed (init ?n []), errArticleCount = 0, totalArticleCount = 0,
      errArticleInfo = [], progressBar = init ?n [], trace = tr\<rparr>"
  let ?t0 = "\<lparr>uuidMap = seed ?pb, errArticleCount = 0, totalArticleCount = 0,
      errArticleInfo = [], progressBar = ?pb, trace = tr2\<rparr>"
  have e0: "seed (init ?n []) = Map.empty" by (simp add: seed_def init_def)
  from assms(2) have run1: "process_list e1 bid bookPath pre (?s0 tr1) (take k tocs) = Some (Inr st1)"
    by (simp add: sync_def)
  from assms(3) have "process_list e3 bid bookPath pre (?s0 tr3) (take k tocs @ drop k tocs) =
      Some (Inr st3)"
    by (simp add: sync_def)
  then obtain u1 where
    u1: "process_list e3 bid bookPath pre (?s0 tr3) (take k tocs) = Some (Inr u1)"
    and u2: "process_list e3 bid bookPath pre u1 (drop k tocs) = Some (Inr st3)"
    unfolding process_list_append by blast
  from run1 u1 have m1: "uuidMap u1 = uuidMap st1"
    by (rule process_list_maps_equal) simp
  have "\<exists>t1. process_list e2 bid bookPath pre ?t0 (take k tocs) = Some (Inr t1) \<and>
      uuidMap t1 = uuidMap st1"
  proof (cases "isDownloadInterrupted ?pb")
    case False
    then have "seed ?pb = Map.empty" by (simp add: seed_def)
    then have "uuidMap ?t0 = uuidMap (?s0 tr1)" by (simp add: e0)
    with run1 show ?thesis
      using assms(4) by (rule process_list_same_map)
  next
    case True
    let ?S = "seed ?pb"
    have "rec_self (?s0 tr1)" by (simp add: rec_self_def init_def)
    with run1 have "rec_self st1" by (rule process_list_rec_self)
    then have rs: "\<forall>r \<in> set ?R. uuidMap st1 (uuid (toc r)) = Some r"
      by (simp add: rec_self_def)
    from True have S: "?S = fold (\<lambda>item m. m(uuid (toc item) \<mapsto> item)) ?R Map.empty"
      by (simp add: seed_def init_def)
    have le: "?S \<subseteq>\<^sub>m uuidMap st1"
      unfolding S using rs by (rule fold_seed_le) simp
    from True have dm: "ids ?R \<subseteq> dom ?S"
      by (simp add: dom_seed init_def)
    have "uuidMap ?t0 = uuidMap (?s0 tr1) ++ ?S" by (simp add: e0)
    with run1 le dm ordered_take [OF assms(1)]
    have "\<exists>t1. process_list e2 bid bookPath pre ?t0 (take k tocs) = Some (Inr t1) \<and>
        uuidMap t1 = uuidMap st1 ++ ?S"
      by (rule replay_prefix)
    with le show ?thesis by (simp add: map_add_le_same)
  qed
  then obtain t1 where
    t1: "process_list e2 bid bookPath pre ?t0 (take k tocs) = Some (Inr t1)"
    and mt: "uuidMap t1 = uuidMap st1"
    by blast
  from mt m1 have "uuidMap t1 = uuidMap u1" by simp
  with u2 have "\<exists>st2. process_list e2 bid bookPath pre t1 (drop k tocs) = Some (Inr st2) \<and>
      uuidMap st2 = uuidMap st3"
    using assms(4) by (rule process_list_same_map)
  then obtain st2 where
    "process_list e2 bid bookPath pre t1 (drop k tocs) = Some (Inr st2)"
    and ms: "uuidMap st2 = uuidMap st3"
    by blast
  with t1 have "process_list e2 bid bookPath pre ?t0 (take k tocs @ drop k tocs) = Some (Inr st2)"
    unfolding process_list_append by blast
  then have "sync e2 bid bookPath pre ?pb tr2 tocs = Some (Inr st2)"
    by (simp add: sync_def)
  with ms show ?thesis by blast
qed

lemma ordered_nth:
  "ordered xs \<Longrightarrow> i \<le> j \<Longrightarrow> j < length xs \<Longrightarrow> uuid (xs ! j) \<noteq> parent_uuid (xs ! i)"
proof (induction xs arbitrary: i j)
  case Nil
  then show ?case by simp
next
  case (Cons x xs)
  show ?case
  proof (cases i)
    case 0
    from Cons.prems(3) have "(x # xs) ! j \<in> set (x # xs)"
      by (rule nth_mem)
    then have "uuid ((x # xs) ! j) \<in> set (map uuid (x # xs))"
      by (simp only: set_map) (rule imageI)
    moreover from Cons.prems(1) have "parent_uuid x \<notin> set (map uuid (x # xs))"
      by simp
    ultimately have "uuid ((x # xs) ! j) \<noteq> parent_uuid x" by metis
    with 0 show ?thesis by simp
  next
    case (Suc i')
    with Cons.prems(2) obtain j' where "j = Suc j'" by (cases j) auto
    with Suc Cons.prems Cons.IH [of i' j'] show ?thesis by simp
  qed
qed

lemma chain_exists_nth:
  assumes "ordered xs" and "from_nodes xs m"
  shows "i < length xs \<Longrightarrow> \<exists>ch. ancestors m (xs ! i) ch"
proof (induction i rule: less_induct)
  case (less i)
  show ?case
  proof (cases "m (parent_uuid (xs ! i))")
    case None
    then have "ancestors m (xs ! i) [xs ! i]" by (rule ancestors.root)
    then show ?thesis ..
  next
    case (Some en)
    with assms(2) have "toc en \<in> set xs" and u: "uuid (toc en) = parent_uuid (xs ! i)"
      by (auto simp: from_nodes_def)
    then obtain j where j: "j < length xs" "xs ! j = toc en"
      by (auto simp: in_set_conv_nth)
    have "j < i"
    proof (rule ccontr)
      assume "\<not> j < i"
      then have "i \<le> j" by simp
      from ordered_nth [OF assms(1) this j(1)] u j(2) show False by simp
    qed
    from less.IH [OF this j(1)] j(2) obtain ch where "ancestors m (toc en) ch" by auto
    with Some have "ancestors m (xs ! i) (ch @ [xs ! i])" by (rule ancestors.step)
    then show ?thesis ..
  qed
qed

lemma chain_exists:
  assumes "ordered xs" and "from_nodes xs m" and "y \<in> set xs"
  shows "\<exists>ch. ancestors m y ch"
proof -
  from assms(3) obtain i where "i < length xs" "xs ! i = y"
    by (auto simp: in_set_conv_nth)
  with chain_exists_nth [OF assms(1,2), of i] show ?thesis by simp
qed

lemma from_nodes_mono: "from_nodes ns m \<Longrightarrow> set ns \<subseteq> set ns' \<Longrightarrow> from_nodes ns' m"
  by (auto simp: from_nodes_def)

lemma from_nodes_upd:
  "from_nodes ns m \<Longrightarrow> toc en = x \<Longrightarrow> from_nodes (ns @ [x]) (m(uuid x \<mapsto> en))"
  by (auto simp: from_nodes_def)

lemma pass_returns:
  assumes "\<forall>d. mkdir e d = None"
  shows "ordered (ns @ rest) \<Longrightarrow> from_nodes ns (uuidMap s) \<Longrightarrow>
         \<exists>s'. process_list e bid bookPath pre s rest = Some (Inr s')"
proof (induction rest arbitrary: ns s)
  case Nil
  show ?case by simp
next
  case (Cons x xs)
  have ord: "ordered ((ns @ [x]) @ xs)" using Cons.prems(1) by simp
  have fn: "from_nodes (ns @ [x]) (uuidMap s)"
    using Cons.prems(2) by (rule from_nodes_mono) auto
  have "\<exists>s1. process_item e bid bookPath pre s x = Some (Inr s1) \<and>
      from_nodes (ns @ [x]) (uuidMap s1)"
  proof (cases "toc_type x")
    case None
    with fn show ?thesis by (simp add: process_item_def)
  next
    case (Some ty)
    show ?thesis
    proof (cases "uuidMap s (uuid x) = None")
      case False
      with Some fn show ?thesis by (simp add: process_item_def)
    next
      case True
      show ?thesis
      proof (cases "is_dir ty x")
        case dir: True
        from ord have "ordered (ns @ [x])" by (rule ordered_append)
        from chain_exists [OF this fn] obtain ch where "ancestors (uuidMap s) x ch"
          by auto
        from process_dir_ancestors [OF this, of e bookPath] assms obtain s1 where
          s1: "process_dir e bookPath s x = Some (Inr s1)"
            "uuidMap s1 = (uuidMap s)(uuid x \<mapsto>
              dir_item (map (\<lambda>x. sanitize (title x)) ch) (map uuid ch) x)"
          by auto
        from Cons.prems(2) have "from_nodes (ns @ [x]) (uuidMap s1)"
          unfolding s1(2) by (rule from_nodes_upd) (simp add: dir_item_def)
        with s1(1) Some True dir show ?thesis by (simp add: process_item_def)
      next
        case nodir: False
        show ?thesis
        proof (cases "url x = []")
          case True
          with Some nodir fn \<open>uuidMap s (uuid x) = None\<close> show ?thesis
            by (simp add: process_item_def)
        next
          case False
          from Cons.prems(2)
          have "from_nodes (ns @ [x]) (uuidMap (process_leaf e bid bookPath pre s x))"
            unfolding uuidMap_process_leaf by (rule from_nodes_upd) (rule toc_leaf_item)
          with Some nodir False \<open>uuidMap s (uuid x) = None\<close> show ?thesis
            by (simp add: process_item_def)
        qed
      qed
    qed
  qed
  then obtain s1 where 1: "process_item e bid bookPath pre s x = Some (Inr s1)"
    and 2: "from_nodes (ns @ [x]) (uuidMap s1)"
    by blast
  from Cons.IH [OF ord 2] 1 show ?case by simp
qed

lemma sync_returns:
  assumes "ordered tocs" and "\<forall>d. mkdir e d = None"
  shows "\<exists>st. sync e bid bookPath pre (init n []) tr tocs = Some (Inr st)"
proof -
  have "from_nodes [] (seed (init n []))"
    by (simp add: from_nodes_def seed_def init_def)
  with pass_returns [OF assms(2), of "[]" tocs] assms(1) show ?thesis
    by (simp add: sync_def)
qed

lemma ordered_ex: "ordered [ex_A, ex_B]"
  by (simp add: ex_A_def ex_B_def)

text \<open>
  Claim C2, amended (the progress store is modelled from the specification): take a node
  sequence in which the parent id of a node is never the id of that node or of a later
  node, and the store left by a pass over a prefix of it, whatever fetches failed there.
  When no directory creation is rejected, the pass of a new run (the map seeded from the
  store, then all nodes) and the pass of a single run on an empty store both return, and
  their final resolution maps are equal: every node id has the same entry and path.
\<close>

theorem resume_same_map:
  assumes "ordered tocs"
    and "sync e1 bid bookPath pre (init (length tocs) []) tr1 (take k tocs) = Some (Inr st1)"
    and "\<forall>d. mkdir e2 d = None" and "\<forall>d. mkdir e3 d = None"
  shows "\<exists>st2 st3.
           sync e2 bid bookPath pre (init (length tocs) (progressInfo (progressBar st1))) tr2 tocs =
             Some (Inr st2) \<and>
           sync e3 bid bookPath pre (init (length tocs) []) tr3 tocs = Some (Inr st3) \<and>
           uuidMap st2 = uuidMap st3"
proof -
  from sync_returns [OF assms(1,4)] obtain st3 where
    3: "sync e3 bid bookPath pre (init (length tocs) []) tr3 tocs = Some (Inr st3)"
    by blast
  from resume_replay [OF assms(1,2) 3 assms(3)] obtain st2 where
    "sync e2 bid bookPath pre (init (length tocs) (progressInfo (progressBar st1))) tr2 tocs =
       Some (Inr st2)" "uuidMap st2 = uuidMap st3"
    by blast
  with 3 show ?thesis by blast
qed

theorem resume_same_map_witness:
  "ordered [ex_A, ex_B] \<and> (\<forall>d. mkdir ex_env d = None) \<and>
   (\<exists>st1 st2 st3.
      sync ex_env_fail 7 ''out/7'' ''http://y/kb'' (init (length [ex_A, ex_B]) []) []
        (take 2 [ex_A, ex_B]) = Some (Inr st1) \<and>
      progressInfo (progressBar st1) = [dir_item [''Intro''] [''A''] ex_A] \<and>
      sync ex_env 7 ''out/7'' ''http://y/kb'' (init (length [ex_A, ex_B]) []) [] [ex_A, ex_B] =
        Some (Inr st3) \<and>
      sync ex_env 7 ''out/7'' ''http://y/kb''
        (init (length [ex_A, ex_B]) (progressInfo (progressBar st1))) [] [ex_A, ex_B] =
        Some (Inr st2) \<and>
      uuidMap st2 = uuidMap st3)"
proof -
  have mk: "\<forall>d. mkdir ex_env d = None" by (simp add: ex_env_def)
  from ex_run_fail obtain st1 where
    r0: "sync ex_env_fail 7 ''out/7'' ''http://y/kb'' (init 2 []) [] [ex_A, ex_B] =
        Some (Inr st1)"
    and rec: "progressInfo (progressBar st1) = [dir_item [''Intro''] [''A''] ex_A]"
    by blast
  from r0 have
    r1: "sync ex_env_fail 7 ''out/7'' ''http://y/kb'' (init (length [ex_A, ex_B]) []) []
        (take 2 [ex_A, ex_B]) = Some (Inr st1)"
    by (simp add: numeral_2_eq_2)
  from resume_same_map [OF ordered_ex r1 mk mk, of "[]" "[]"] obtain st2 st3 where
    "sync ex_env 7 ''out/7'' ''http://y/kb''
        (init (length [ex_A, ex_B]) (progressInfo (progressBar st1))) [] [ex_A, ex_B] =
        Some (Inr st2)"
    "sync ex_env 7 ''out/7'' ''http://y/kb'' (init (length [ex_A, ex_B]) []) [] [ex_A, ex_B] =
        Some (Inr st3)"
    "uuidMap st2 = uuidMap st3"
    by blast
  with r1 rec mk ordered_ex show ?thesis by blast
qed

text \<open>
  Claim C2 as stated fails on a sequence that lists the document before its directory:
  a pass over both nodes in which the fetch fails records the directory only; the next
  run resolves the document below the directory, a single uninterrupted run resolves it
  at the root.
\<close>

theorem resume_same_map_counterexample:
  "records_of (sync ex_env_fail 7 ''out/7'' ''http://y/kb'' (init 2 []) [] [ex_B, ex_A]) =
     [dir_item [''Intro''] [''A''] ex_A] \<and>
   resolved_path
     (sync ex_env 7 ''out/7'' ''http://y/kb'' (init 2 [dir_item [''Intro''] [''A''] ex_A]) []
        [ex_B, ex_A]) ''B'' = Some ''Intro/Hello.md'' \<and>
   resolved_path
     (sync ex_env 7 ''out/7'' ''http://y/kb'' (init 2 []) [] [ex_B, ex_A]) ''B'' =
     Some ''Hello.md''"
  by code_simp

section \<open>The failure of a fetch\<close>






















end
